theory Spec2Isabelle
  imports Complex_Main "HOL-Library.AList"
begin

section \<open>The world of cells: constants and coordinates\<close>

text \<open>
  The program modelled is the latest iteration of the game (\<^verbatim>\<open>src/unnamed/part_000\<close>).
  JavaScript numbers are modelled by \<open>real\<close> for continuous latitudes and longitudes
  and by \<open>int\<close> for cell indices and token values (every index is the result of
  \<^verbatim>\<open>Math.round\<close>, \<^verbatim>\<open>Math.floor\<close> or a counting loop, every token value is a
  small integer or a double of one), so rounding errors of floating point and the
  overflow of doubles are outside the model.
\<close>

definition CLASSROOM_LATLNG :: "real \<times> real" where
  "CLASSROOM_LATLNG = (36.997936938057016, - 122.05703507501151)"

definition TILE_DEGREES :: real where
  "TILE_DEGREES = 1 / 10000"

definition CACHE_SPAWN_PROBABILITY :: real where
  "CACHE_SPAWN_PROBABILITY = 1 / 10"

definition PROXIMITY_CELLS :: int where
  "PROXIMITY_CELLS = 1"

definition WIN_THRESHOLD :: int where
  "WIN_THRESHOLD = 5"

type_synonym cell = "int \<times> int"

type_synonym latlng = "real \<times> real"

text \<open>\<^verbatim>\<open>Math.round\<close> rounds halves upwards, as \<^const>\<open>round\<close> does.\<close>

definition latLngToCell :: "latlng \<Rightarrow> cell" where
  "latLngToCell position =
     (let latPosition = round ((fst position - fst CLASSROOM_LATLNG) / TILE_DEGREES);
          lngPosition = round ((snd position - snd CLASSROOM_LATLNG) / TILE_DEGREES)
      in (latPosition, lngPosition))"

definition cellDistance :: "cell \<Rightarrow> cell \<Rightarrow> int" where
  "cellDistance a b = max \<bar>fst a - fst b\<bar> \<bar>snd a - snd b\<bar>"

text \<open>
  The rectangle \<^verbatim>\<open>drawCell\<close> draws for the cell \<open>(i, j)\<close>: its south-west and its
  north-east corner.
\<close>

definition cellBounds :: "int \<Rightarrow> int \<Rightarrow> latlng \<times> latlng" where
  "cellBounds i j =
     (let origin = CLASSROOM_LATLNG in
      ((fst origin + real_of_int i * TILE_DEGREES, snd origin + real_of_int j * TILE_DEGREES),
       (fst origin + real_of_int (i + 1) * TILE_DEGREES,
        snd origin + real_of_int (j + 1) * TILE_DEGREES)))"

definition inBounds :: "latlng \<times> latlng \<Rightarrow> latlng \<Rightarrow> bool" where
  "inBounds b p =
     (fst (fst b) \<le> fst p \<and> fst p \<le> fst (snd b) \<and> snd (fst b) \<le> snd p \<and> snd p \<le> snd (snd b))"

subsection \<open>Numbers as strings\<close>

text \<open>
  The argument of \<^verbatim>\<open>luck\<close> is an array turned into a string: the decimal numerals of
  the indices, separated by commas.
\<close>

definition digitChar :: "nat \<Rightarrow> char" where
  "digitChar d = ''0123456789'' ! d"

function natToString :: "nat \<Rightarrow> string" where
  "natToString n =
     (if n < 10 then [digitChar n] else natToString (n div 10) @ [digitChar (n mod 10)])"
  by pat_completeness auto
termination
  by (relation "measure id") auto

declare natToString.simps [simp del]

definition numberToString :: "int \<Rightarrow> string" where
  "numberToString n = (if n < 0 then CHR ''-'' # natToString (nat (- n)) else natToString (nat n))"

text \<open>\<^verbatim>\<open>[i, j].toString()\<close> and \<^verbatim>\<open>[i, j, "initialValue"].toString()\<close>.\<close>

definition presenceKey :: "int \<Rightarrow> int \<Rightarrow> string" where
  "presenceKey i j = numberToString i @ '','' @ numberToString j"

definition valueKey :: "int \<Rightarrow> int \<Rightarrow> string" where
  "valueKey i j = numberToString i @ '','' @ numberToString j @ '','' @ ''initialValue''"

section \<open>The state of the game\<close>

text \<open>
  The maps of the program are keyed by the string \<^verbatim>\<open>`${i},${j}`\<close>, which is read back
  with \<^verbatim>\<open>split(",")\<close> and \<^verbatim>\<open>Number\<close>; the model keys them by the pair \<open>(i, j)\<close> itself.

  A cache is an object \<^verbatim>\<open>{ marker, value }\<close> that the map \<^verbatim>\<open>caches\<close> and the closures of
  the popups share, and whose \<^verbatim>\<open>value\<close> a placement overwrites in place. Objects are
  therefore references into a store: \<open>cacheValue\<close> holds the field \<^verbatim>\<open>value\<close> of every
  object, \<open>nextCache\<close> is the next unused reference. The Leaflet layers themselves
  (markers, rectangles, colours, the text of the panels) are not modelled; of a
  rectangle the model keeps its bounds and which popup \<^verbatim>\<open>drawCell\<close> bound to it.
\<close>

datatype popup =
    NoPopup      \<comment> \<open>a cell drawn with a cache: the popup is on the marker\<close>
  | DropPopup    \<comment> \<open>\<^verbatim>\<open>Drop token here\<close>: a cell that the player emptied\<close>
  | InfoPopup    \<comment> \<open>\<^verbatim>\<open>Cell: i, j\<close>: a cell without a cache\<close>

record Rectangle =
  rectBounds :: "latlng \<times> latlng"
  rectPopup :: popup

record CellRecord =
  cell_i :: int
  cell_j :: int
  rect :: Rectangle

type_synonym cacheRef = nat

record state =
  playerLatLng :: latlng
  inventory :: "int option"
  caches :: "cell \<Rightarrow> cacheRef option"
  cacheValue :: "cacheRef \<Rightarrow> int"
  nextCache :: cacheRef
  modifiedCaches :: "cell \<Rightarrow> int option option"
  cellRecords :: "(cell \<times> CellRecord) list"
  hasCrafted :: bool

text \<open>
  In \<open>modifiedCaches\<close>, \<open>None\<close> is a key that the map does not have, \<open>Some None\<close> the
  value \<^verbatim>\<open>null\<close> (a cell emptied by the player), \<open>Some (Some v)\<close> a token of value \<open>v\<close>.
  \<open>cellRecords\<close> is a list of pairs in insertion order, as the removal loop of
  \<^verbatim>\<open>updateVisibleCells\<close> walks over its keys.
\<close>

definition initialState :: state where
  "initialState =
     \<lparr> playerLatLng = CLASSROOM_LATLNG, inventory = None, caches = (\<lambda>_. None),
       cacheValue = (\<lambda>_. 0), nextCache = 0, modifiedCaches = (\<lambda>_. None),
       cellRecords = [], hasCrafted = False \<rparr>"

definition getPlayerCell :: "state \<Rightarrow> cell" where
  "getPlayerCell s = latLngToCell (playerLatLng s)"

definition triggerWin :: "state \<Rightarrow> state" where
  "triggerWin s = (if hasCrafted s then s else s\<lparr>hasCrafted := True\<rparr>)"

text \<open>The value of the cache that is resident at a cell, if there is one.\<close>

definition residentValue :: "state \<Rightarrow> cell \<Rightarrow> int option" where
  "residentValue s key = map_option (cacheValue s) (caches s key)"

section \<open>The handlers of the popups\<close>

text \<open>
  What a handler writes into the message line of its popup. \<open>TooFar d\<close> stands for the
  three texts that start with \<^verbatim>\<open>Too far (d cells).\<close>
\<close>

datatype message =
    PickedUp
  | AlreadyCarrying
  | TooFar int
  | NoTokenToPlace
  | NoTokenToDrop
  | Placed int
  | ValueMismatch
  | Dropped int

text \<open>
  \<^verbatim>\<open>caches.set(key, { marker, value })\<close> with a new object.
\<close>

definition newCache :: "cell \<Rightarrow> int \<Rightarrow> state \<Rightarrow> state" where
  "newCache key val s =
     s\<lparr> caches := (caches s)(key \<mapsto> nextCache s),
        cacheValue := (cacheValue s)(nextCache s := val),
        nextCache := Suc (nextCache s) \<rparr>"

text \<open>
  The popup of a marker is built when it opens, and reads \<^verbatim>\<open>cached = caches.get(key)\<close>
  then; its two handlers close over that object. The handlers take it as the
  argument \<open>cached\<close>. The program has three copies of either handler (for a dropped, a
  restored and a generated cache), which are the same code.
\<close>

definition pickupClick :: "cell \<Rightarrow> cacheRef \<Rightarrow> state \<Rightarrow> state \<times> message" where
  "pickupClick key cached s =
     (let playerCell = getPlayerCell s;
          dist = cellDistance playerCell key
      in if dist \<le> PROXIMITY_CELLS then
           (if inventory s = None then
              (s\<lparr> caches := (caches s)(key := None),
                  inventory := Some (cacheValue s cached),
                  modifiedCaches := (modifiedCaches s)(key \<mapsto> None) \<rparr>, PickedUp)
            else (s, AlreadyCarrying))
         else (s, TooFar dist))"

definition placeClick :: "cell \<Rightarrow> cacheRef \<Rightarrow> state \<Rightarrow> state \<times> message" where
  "placeClick key cached s =
     (let playerCell = getPlayerCell s;
          dist = cellDistance playerCell key
      in if dist > PROXIMITY_CELLS then (s, TooFar dist)
         else (case inventory s of
                 None \<Rightarrow> (s, NoTokenToPlace)
               | Some carried \<Rightarrow>
                   if carried = cacheValue s cached then
                     (let doubled = cacheValue s cached * 2;
                          s1 = s\<lparr> cacheValue := (cacheValue s)(cached := doubled),
                                  modifiedCaches := (modifiedCaches s)(key \<mapsto> Some doubled),
                                  inventory := None \<rparr>
                      in (if \<not> hasCrafted s1 \<and> doubled \<ge> WIN_THRESHOLD then triggerWin s1 else s1,
                          Placed doubled))
                   else (s, ValueMismatch)))"

text \<open>The handler of \<^verbatim>\<open>Drop token here\<close>, on the rectangle of an emptied cell.\<close>

definition dropClick :: "cell \<Rightarrow> state \<Rightarrow> state \<times> message" where
  "dropClick key s =
     (let playerCell = getPlayerCell s;
          dist = cellDistance playerCell key
      in if dist > PROXIMITY_CELLS then (s, TooFar dist)
         else (case inventory s of
                 None \<Rightarrow> (s, NoTokenToDrop)
               | Some val \<Rightarrow>
                   (let s1 = newCache key val s;
                        s2 = s1\<lparr> modifiedCaches := (modifiedCaches s1)(key \<mapsto> Some val) \<rparr>
                    in (s2\<lparr> inventory := None \<rparr>, Dropped val))))"

section \<open>Drawing and removing cells\<close>

text \<open>
  \<^verbatim>\<open>luck\<close> comes from a module that is not part of the sources at hand: a function
  from strings to numbers in \<open>[0, 1)\<close>. It is a parameter of everything that draws.
\<close>

definition baselineValue :: "real \<Rightarrow> int" where
  "baselineValue r =
     (if r < 0.6 then 1
      else if r < 0.9 then 2
      else if r < 0.97 then 3
      else if r < 0.995 then 4
      else 5)"

definition drawCell :: "(string \<Rightarrow> real) \<Rightarrow> int \<Rightarrow> int \<Rightarrow> state \<Rightarrow> Rectangle \<times> state" where
  "drawCell luck i j s =
     (let bounds = cellBounds i j;
          key = (i, j);
          modified = modifiedCaches s key
      in case modified of
           Some None \<Rightarrow> (\<lparr> rectBounds = bounds, rectPopup = DropPopup \<rparr>, s)
         | Some (Some val) \<Rightarrow> (\<lparr> rectBounds = bounds, rectPopup = NoPopup \<rparr>, newCache key val s)
         | None \<Rightarrow>
             if luck (presenceKey i j) < CACHE_SPAWN_PROBABILITY then
               (let r = luck (valueKey i j);
                    val = baselineValue r
                in (\<lparr> rectBounds = bounds, rectPopup = NoPopup \<rparr>, newCache key val s))
             else (\<lparr> rectBounds = bounds, rectPopup = InfoPopup \<rparr>, s))"

definition hasRecord :: "state \<Rightarrow> cell \<Rightarrow> bool" where
  "hasRecord s key = (key \<in> set (map fst (cellRecords s)))"

definition cellRendered :: "(string \<Rightarrow> real) \<Rightarrow> int \<Rightarrow> int \<Rightarrow> state \<Rightarrow> state" where
  "cellRendered luck i j s =
     (let key = (i, j)
      in if hasRecord s key then s
         else (case drawCell luck i j s of
                 (r, s1) \<Rightarrow>
                   s1\<lparr> cellRecords :=
                         AList.update key \<lparr> cell_i = i, cell_j = j, rect = r \<rparr> (cellRecords s1) \<rparr>))"

definition removeCell :: "int \<Rightarrow> int \<Rightarrow> state \<Rightarrow> state" where
  "removeCell i j s =
     (let key = (i, j);
          s1 = (case map_of (cellRecords s) key of
                  Some _ \<Rightarrow> s\<lparr> cellRecords := AList.delete key (cellRecords s) \<rparr>
                | None \<Rightarrow> s)
      in case caches s1 key of
           Some _ \<Rightarrow> s1\<lparr> caches := (caches s1)(key := None) \<rparr>
         | None \<Rightarrow> s1)"

section \<open>The viewport\<close>

text \<open>
  The bounds of the map are Leaflet's; \<^verbatim>\<open>updateVisibleCells\<close> takes what
  \<^verbatim>\<open>map.getBounds()\<close> returns as an argument: the south-west and the north-east corner.
  Beside the new state it returns the cells for which the first loop called
  \<^verbatim>\<open>cellRendered\<close> and the cells for which the second loop called \<^verbatim>\<open>removeCell\<close>, in
  the order of the calls.
\<close>

definition getSouth :: "latlng \<times> latlng \<Rightarrow> real" where "getSouth b = fst (fst b)"
definition getWest :: "latlng \<times> latlng \<Rightarrow> real" where "getWest b = snd (fst b)"
definition getNorth :: "latlng \<times> latlng \<Rightarrow> real" where "getNorth b = fst (snd b)"
definition getEast :: "latlng \<times> latlng \<Rightarrow> real" where "getEast b = snd (snd b)"

definition visitCell ::
  "(string \<Rightarrow> real) \<Rightarrow> int \<Rightarrow> int \<Rightarrow> cell set \<times> cell list \<times> state \<Rightarrow> cell set \<times> cell list \<times> state" where
  "visitCell luck i j acc =
     (case acc of (wanted, entered, s) \<Rightarrow>
        (insert (i, j) wanted,
         if \<not> hasRecord s (i, j) then (entered @ [(i, j)], cellRendered luck i j s)
         else (entered, s)))"

definition renderLoop ::
  "(string \<Rightarrow> real) \<Rightarrow> int \<Rightarrow> int \<Rightarrow> int \<Rightarrow> int \<Rightarrow> cell set \<times> cell list \<times> state
     \<Rightarrow> cell set \<times> cell list \<times> state" where
  "renderLoop luck southMin northMax westMin eastMax acc =
     fold (\<lambda>i. fold (\<lambda>j. visitCell luck i j) [westMin..eastMax]) [southMin..northMax] acc"

definition removeUnwanted :: "cell set \<Rightarrow> cell \<Rightarrow> cell list \<times> state \<Rightarrow> cell list \<times> state" where
  "removeUnwanted wanted key acc =
     (case acc of (left, s) \<Rightarrow>
        if key \<notin> wanted then (left @ [key], removeCell (fst key) (snd key) s)
        else (left, s))"

definition removeLoop :: "cell set \<Rightarrow> cell list \<Rightarrow> cell list \<times> state \<Rightarrow> cell list \<times> state" where
  "removeLoop wanted keys acc = fold (removeUnwanted wanted) keys acc"

definition updateVisibleCells ::
  "(string \<Rightarrow> real) \<Rightarrow> latlng \<times> latlng \<Rightarrow> state \<Rightarrow> cell list \<times> cell list \<times> state" where
  "updateVisibleCells luck bounds s =
     (let south = getSouth bounds;
          north = getNorth bounds;
          west = getWest bounds;
          east = getEast bounds;
          southMin = \<lfloor>(south - fst CLASSROOM_LATLNG) / TILE_DEGREES\<rfloor>;
          northMax = \<lfloor>(north - fst CLASSROOM_LATLNG) / TILE_DEGREES\<rfloor>;
          westMin = \<lfloor>(west - snd CLASSROOM_LATLNG) / TILE_DEGREES\<rfloor>;
          eastMax = \<lfloor>(east - snd CLASSROOM_LATLNG) / TILE_DEGREES\<rfloor>
      in case renderLoop luck southMin northMax westMin eastMax ({}, [], s) of
           (wanted, entered, s1) \<Rightarrow>
             (case removeLoop wanted (map fst (cellRecords s1)) ([], s1) of
                (left, s2) \<Rightarrow> (entered, left, s2)))"

text \<open>The cells that a viewport wants: those the two loops run over.\<close>

definition visibleCells :: "latlng \<times> latlng \<Rightarrow> cell set" where
  "visibleCells bounds =
     {(i, j). \<lfloor>(getSouth bounds - fst CLASSROOM_LATLNG) / TILE_DEGREES\<rfloor> \<le> i
            \<and> i \<le> \<lfloor>(getNorth bounds - fst CLASSROOM_LATLNG) / TILE_DEGREES\<rfloor>
            \<and> \<lfloor>(getWest bounds - snd CLASSROOM_LATLNG) / TILE_DEGREES\<rfloor> \<le> j
            \<and> j \<le> \<lfloor>(getEast bounds - snd CLASSROOM_LATLNG) / TILE_DEGREES\<rfloor>}"

definition movePlayerByCells ::
  "(string \<Rightarrow> real) \<Rightarrow> int \<Rightarrow> int \<Rightarrow> latlng \<times> latlng \<Rightarrow> state \<Rightarrow> state" where
  "movePlayerByCells luck latitudeUpdate longitudeUpdate bounds s =
     (let current = playerLatLng s;
          newLat = fst current + real_of_int latitudeUpdate * TILE_DEGREES;
          newLng = snd current + real_of_int longitudeUpdate * TILE_DEGREES;
          s1 = s\<lparr> playerLatLng := (newLat, newLng) \<rparr>
      in snd (snd (updateVisibleCells luck bounds s1)))"

section \<open>Events\<close>

text \<open>
  What the page reacts to: a key (the lower-cased \<^verbatim>\<open>e.key\<close>, with the bounds of the map
  after panning), the end of a movement of the map, and a click on one of the three
  buttons. A click on a button of a marker's popup carries the object that the popup
  closed over. (The handler of the keys first looks whether an input field has the
  focus; the page has none.) The page itself starts with one \<^verbatim>\<open>updateVisibleCells\<close>,
  which is the event \<open>MoveEnd\<close> with the first bounds.
\<close>

datatype event =
    KeyDown string "latlng \<times> latlng"
  | MoveEnd "latlng \<times> latlng"
  | ClickPickup cell cacheRef
  | ClickPlace cell cacheRef
  | ClickDrop cell

definition step :: "(string \<Rightarrow> real) \<Rightarrow> event \<Rightarrow> state \<Rightarrow> state" where
  "step luck ev s =
     (case ev of
        KeyDown k bounds \<Rightarrow>
          if k = ''w'' then movePlayerByCells luck 1 0 bounds s
          else if k = ''s'' then movePlayerByCells luck (- 1) 0 bounds s
          else if k = ''a'' then movePlayerByCells luck 0 (- 1) bounds s
          else if k = ''d'' then movePlayerByCells luck 0 1 bounds s
          else s
      | MoveEnd bounds \<Rightarrow> snd (snd (updateVisibleCells luck bounds s))
      | ClickPickup key cached \<Rightarrow> fst (pickupClick key cached s)
      | ClickPlace key cached \<Rightarrow> fst (placeClick key cached s)
      | ClickDrop key \<Rightarrow> fst (dropClick key s))"

definition run :: "(string \<Rightarrow> real) \<Rightarrow> event list \<Rightarrow> state \<Rightarrow> state" where
  "run luck evs s = fold (step luck) evs s"

text \<open>
  Which clicks the page offers: the popup of a marker reads the cache that is resident
  at its cell when it opens, and \<^verbatim>\<open>Drop token here\<close> is on the rectangle of a cell that
  was drawn while its entry in \<open>modifiedCaches\<close> was \<^verbatim>\<open>null\<close>.
\<close>

definition offered :: "state \<Rightarrow> event \<Rightarrow> bool" where
  "offered s ev =
     (case ev of
        ClickPickup key cached \<Rightarrow> caches s key = Some cached
      | ClickPlace key cached \<Rightarrow> caches s key = Some cached
      | ClickDrop key \<Rightarrow>
          (case map_of (cellRecords s) key of
             Some r \<Rightarrow> rectPopup (rect r) = DropPopup
           | None \<Rightarrow> False)
      | _ \<Rightarrow> True)"

section \<open>Auxiliary notions\<close>

text \<open>The part of the state that drawing and removing cells never write.\<close>

definition untouched :: "state \<Rightarrow> state \<Rightarrow> bool" where
  "untouched s s' =
     (playerLatLng s' = playerLatLng s \<and> inventory s' = inventory s
      \<and> modifiedCaches s' = modifiedCaches s \<and> hasCrafted s' = hasCrafted s)"

text \<open>The first loop of \<^verbatim>\<open>updateVisibleCells\<close>, on the bounds of the map.\<close>

definition afterRender ::
  "(string \<Rightarrow> real) \<Rightarrow> latlng \<times> latlng \<Rightarrow> state \<Rightarrow> cell set \<times> cell list \<times> state" where
  "afterRender luck bounds s =
     renderLoop luck \<lfloor>(getSouth bounds - fst CLASSROOM_LATLNG) / TILE_DEGREES\<rfloor>
       \<lfloor>(getNorth bounds - fst CLASSROOM_LATLNG) / TILE_DEGREES\<rfloor>
       \<lfloor>(getWest bounds - snd CLASSROOM_LATLNG) / TILE_DEGREES\<rfloor>
       \<lfloor>(getEast bounds - snd CLASSROOM_LATLNG) / TILE_DEGREES\<rfloor> ({}, [], s)"

subsection \<open>A small world to run the program in\<close>

text \<open>
  A \<^verbatim>\<open>luck\<close> that generates four caches: of value 4 at \<open>(0, 0)\<close> and \<open>(0, 1)\<close>, of
  value 3 at \<open>(0, 2)\<close> and \<open>(1, 1)\<close>, and nothing elsewhere.
\<close>

definition exampleLuck :: "string \<Rightarrow> real" where
  "exampleLuck k =
     (if k = ''0,0'' \<or> k = ''0,1'' \<or> k = ''0,2'' \<or> k = ''1,1'' then 0
      else if k = ''0,0,initialValue'' \<or> k = ''0,1,initialValue'' then 0.98
      else if k = ''0,2,initialValue'' \<or> k = ''1,1,initialValue'' then 0.95
      else 0.5)"

text \<open>A viewport over the cells \<open>(0..1, 0..2)\<close>, and one over the cell \<open>(7, 7)\<close> alone.\<close>

definition exampleView :: "latlng \<times> latlng" where
  "exampleView = (fst (cellBounds 0 0), fst (cellBounds 1 2))"

definition farView :: "latlng \<times> latlng" where
  "farView = (fst (cellBounds 7 7), fst (cellBounds 7 7))"

text \<open>The page after its first \<^verbatim>\<open>updateVisibleCells\<close>, the player standing at \<open>(0, 0)\<close>.\<close>

definition exampleWorld :: state where
  "exampleWorld = run exampleLuck [MoveEnd exampleView] initialState"

text \<open>Then the player picks up the token of value 4 at \<open>(0, 0)\<close>.\<close>

definition carryingFour :: state where
  "carryingFour = run exampleLuck [ClickPickup (0, 0) 0] exampleWorld"

text \<open>Then the map moves away and comes back: the emptied cell \<open>(0, 0)\<close> is drawn anew.\<close>

definition emptiedCell :: state where
  "emptiedCell = run exampleLuck [MoveEnd farView, MoveEnd exampleView] carryingFour"

text \<open>What the examples look at in a state: one evaluation of the run gives all of it.\<close>

definition snapshot ::
  "state \<Rightarrow> cell list \<Rightarrow> cell \<times> int option \<times> bool \<times> cell list \<times> (cacheRef option \<times> int option \<times> int option option \<times> popup option) list" where
  "snapshot s keys =
     (getPlayerCell s, inventory s, hasCrafted s, map fst (cellRecords s),
      map (\<lambda>k. (caches s k, residentValue s k, modifiedCaches s k,
                map_option (\<lambda>r. rectPopup (rect r)) (map_of (cellRecords s) k))) keys)"

text \<open>
  What a cell holds: the spec's \<open>CellContent\<close>. In the program it is the cache that is
  resident at the cell, if any.
\<close>

datatype CellContent = NoCache | Cache int

definition content :: "state \<Rightarrow> cell \<Rightarrow> CellContent" where
  "content s key = (case residentValue s key of None \<Rightarrow> NoCache | Some v \<Rightarrow> Cache v)"

text \<open>The generator: the branch of \<^verbatim>\<open>drawCell\<close> for a cell that was never modified.\<close>

definition generate :: "(string \<Rightarrow> real) \<Rightarrow> int \<Rightarrow> int \<Rightarrow> CellContent" where
  "generate luck i j =
     (if luck (presenceKey i j) < CACHE_SPAWN_PROBABILITY
      then Cache (baselineValue (luck (valueKey i j)))
      else NoCache)"

text \<open>
  Resolution in the words of the spec: an entry of the overlay decides, and the
  generator is asked only when there is none.
\<close>

definition spec_resolve ::
  "(cell \<Rightarrow> int option option) \<Rightarrow> (int \<Rightarrow> int \<Rightarrow> CellContent) \<Rightarrow> cell \<Rightarrow> CellContent" where
  "spec_resolve overlay generator key =
     (case overlay key of
        Some None \<Rightarrow> NoCache
      | Some (Some v) \<Rightarrow> Cache v
      | None \<Rightarrow> generator (fst key) (snd key))"

text \<open>A cell that the overlay records as emptied has no resident cache.\<close>

definition emptyMeansNoCache :: "state \<Rightarrow> cell \<Rightarrow> bool" where
  "emptyMeansNoCache s key = (modifiedCaches s key = Some None \<longrightarrow> caches s key = None)"

text \<open>
  The cell whose rectangle holds a position, which is also the cell that
  \<^verbatim>\<open>updateVisibleCells\<close> computes for a bound at that position: the offsets in tiles,
  rounded down.
\<close>

definition tileOffset :: "latlng \<Rightarrow> real \<times> real" where
  "tileOffset position =
     ((fst position - fst CLASSROOM_LATLNG) / TILE_DEGREES,
      (snd position - snd CLASSROOM_LATLNG) / TILE_DEGREES)"

definition floorCell :: "latlng \<Rightarrow> cell" where
  "floorCell position = (\<lfloor>fst (tileOffset position)\<rfloor>, \<lfloor>snd (tileOffset position)\<rfloor>)"

text \<open>A position six tenths of a tile north and east of the south-west corner of \<open>(0, 0)\<close>.\<close>

definition offCentre :: latlng where
  "offCentre = (fst CLASSROOM_LATLNG + 6 / 100000, snd CLASSROOM_LATLNG + 6 / 100000)"

text \<open>The cells that have a record, and the three results of \<^verbatim>\<open>updateVisibleCells\<close>.\<close>

definition materialized :: "state \<Rightarrow> cell set" where
  "materialized s = set (map fst (cellRecords s))"

definition enteredCells :: "(string \<Rightarrow> real) \<Rightarrow> latlng \<times> latlng \<Rightarrow> state \<Rightarrow> cell list" where
  "enteredCells luck bounds s = fst (updateVisibleCells luck bounds s)"

definition leftCells :: "(string \<Rightarrow> real) \<Rightarrow> latlng \<times> latlng \<Rightarrow> state \<Rightarrow> cell list" where
  "leftCells luck bounds s = fst (snd (updateVisibleCells luck bounds s))"

definition afterUpdate :: "(string \<Rightarrow> real) \<Rightarrow> latlng \<times> latlng \<Rightarrow> state \<Rightarrow> state" where
  "afterUpdate luck bounds s = snd (snd (updateVisibleCells luck bounds s))"

text \<open>
  What the first loop keeps true, started in the state \<open>s\<close>: the records are those of
  \<open>s\<close> and the wanted cells seen so far, the cells drawn are the wanted cells that \<open>s\<close>
  had no record of, each drawn once, and a cell that \<open>s\<close> had a record of keeps its
  record and its cache.
\<close>

definition renderInvariant :: "state \<Rightarrow> cell set \<times> cell list \<times> state \<Rightarrow> bool" where
  "renderInvariant s acc =
     (case acc of (wanted, entered, s') \<Rightarrow>
        materialized s' = materialized s \<union> wanted
      \<and> set entered = wanted - materialized s
      \<and> distinct entered
      \<and> (distinct (map fst (cellRecords s)) \<longrightarrow> distinct (map fst (cellRecords s')))
      \<and> (\<forall>key \<in> materialized s.
            map_of (cellRecords s') key = map_of (cellRecords s) key
          \<and> caches s' key = caches s key))"

text \<open>A viewport over the cells \<open>(0..1, 1..3)\<close>, which overlaps \<open>exampleView\<close>.\<close>

definition shiftedView :: "latlng \<times> latlng" where
  "shiftedView = (fst (cellBounds 0 1), fst (cellBounds 1 3))"

text \<open>
  \<^verbatim>\<open>Drop token here\<close> is offered only at a cell that has an entry in the overlay.
\<close>

definition dropNeedsEntry :: "state \<Rightarrow> cell \<Rightarrow> bool" where
  "dropNeedsEntry s key = (offered s (ClickDrop key) \<longrightarrow> modifiedCaches s key \<noteq> None)"

text \<open>The clicks, as opposed to the movements of the map.\<close>

definition isClick :: "event \<Rightarrow> bool" where
  "isClick ev = (case ev of KeyDown _ _ \<Rightarrow> False | MoveEnd _ \<Rightarrow> False | _ \<Rightarrow> True)"

section \<open>Loops and frames\<close>

lemma untouched_refl: "untouched s s"
  by (simp add: untouched_def)

lemma untouched_trans: "untouched s s1 \<Longrightarrow> untouched s1 s2 \<Longrightarrow> untouched s s2"
  by (simp add: untouched_def)

lemma fold_invariant:
  assumes "P a" and "\<And>x b. x \<in> set xs \<Longrightarrow> P b \<Longrightarrow> P (f x b)"
  shows "P (fold f xs a)"
  using assms by (induction xs arbitrary: a) auto

lemma newCache_untouched: "untouched s (newCache key val s)"
  by (simp add: untouched_def newCache_def)

lemma newCache_cellRecords: "cellRecords (newCache key val s) = cellRecords s"
  by (simp add: newCache_def)

lemma drawCell_untouched: "untouched s (snd (drawCell luck i j s))"
  by (simp add: drawCell_def Let_def untouched_refl newCache_untouched split: option.splits)

lemma drawCell_cellRecords: "cellRecords (snd (drawCell luck i j s)) = cellRecords s"
  by (simp add: drawCell_def Let_def newCache_cellRecords split: option.splits)

lemma cellRendered_untouched: "untouched s (cellRendered luck i j s)"
proof -
  have "untouched s (snd (drawCell luck i j s))" by (rule drawCell_untouched)
  then show ?thesis
    by (cases "drawCell luck i j s") (simp add: cellRendered_def Let_def untouched_def)
qed

lemma removeCell_untouched: "untouched s (removeCell i j s)"
  by (simp add: removeCell_def Let_def untouched_def split: option.splits)

lemma visitCell_untouched:
  "untouched s (snd (snd acc)) \<Longrightarrow> untouched s (snd (snd (visitCell luck i j acc)))"
  by (cases acc) (auto simp: visitCell_def intro: untouched_trans cellRendered_untouched)

lemma renderLoop_untouched:
  "untouched s (snd (snd acc)) \<Longrightarrow> untouched s (snd (snd (renderLoop luck a b c d acc)))"
  unfolding renderLoop_def
  by (rule fold_invariant, assumption, rule fold_invariant, assumption, rule visitCell_untouched)

lemma removeUnwanted_untouched:
  "untouched s (snd acc) \<Longrightarrow> untouched s (snd (removeUnwanted w key acc))"
  by (cases acc) (auto simp: removeUnwanted_def intro: untouched_trans removeCell_untouched)

lemma removeLoop_untouched:
  "untouched s (snd acc) \<Longrightarrow> untouched s (snd (removeLoop w ks acc))"
  unfolding removeLoop_def
  by (rule fold_invariant, assumption, rule removeUnwanted_untouched)

lemma updateVisibleCells_unfold:
  "updateVisibleCells luck bounds s =
     (fst (snd (afterRender luck bounds s)),
      removeLoop (fst (afterRender luck bounds s))
        (map fst (cellRecords (snd (snd (afterRender luck bounds s)))))
        ([], snd (snd (afterRender luck bounds s))))"
  by (simp add: updateVisibleCells_def afterRender_def Let_def split: prod.splits)

lemma updateVisibleCells_untouched: "untouched s (snd (snd (updateVisibleCells luck bounds s)))"
proof -
  have r: "untouched s (snd (snd (afterRender luck bounds s)))"
    unfolding afterRender_def by (rule renderLoop_untouched) (simp add: untouched_refl)
  show ?thesis
    unfolding updateVisibleCells_unfold snd_conv
    by (rule removeLoop_untouched) (simp add: r)
qed

section \<open>The win flag is never taken back\<close>

lemma movePlayerByCells_hasCrafted:
  "hasCrafted (movePlayerByCells luck a b bounds s) = hasCrafted s"
  using updateVisibleCells_untouched
    [of "s\<lparr>playerLatLng := (fst (playerLatLng s) + real_of_int a * TILE_DEGREES,
                             snd (playerLatLng s) + real_of_int b * TILE_DEGREES)\<rparr>" luck bounds]
  by (simp add: movePlayerByCells_def Let_def untouched_def)

lemma pickupClick_hasCrafted: "hasCrafted (fst (pickupClick key c s)) = hasCrafted s"
  by (simp add: pickupClick_def Let_def)

lemma dropClick_hasCrafted: "hasCrafted (fst (dropClick key s)) = hasCrafted s"
  by (simp add: dropClick_def Let_def newCache_def split: option.splits)

lemma placeClick_hasCrafted: "hasCrafted s \<Longrightarrow> hasCrafted (fst (placeClick key c s))"
  by (simp add: placeClick_def Let_def triggerWin_def split: option.splits)

lemma step_hasCrafted: "hasCrafted s \<Longrightarrow> hasCrafted (step luck ev s)"
proof (cases ev)
  case (KeyDown k bounds)
  assume "hasCrafted s"
  then show ?thesis using KeyDown by (simp add: step_def movePlayerByCells_hasCrafted)
next
  case (MoveEnd bounds)
  assume "hasCrafted s"
  then show ?thesis using MoveEnd updateVisibleCells_untouched [of s luck bounds]
    by (simp add: step_def untouched_def)
next
  case (ClickPickup key c)
  assume "hasCrafted s"
  then show ?thesis using ClickPickup by (simp add: step_def pickupClick_hasCrafted)
next
  case (ClickPlace key c)
  assume "hasCrafted s"
  then show ?thesis using ClickPlace by (simp add: step_def placeClick_hasCrafted)
next
  case (ClickDrop key)
  assume "hasCrafted s"
  then show ?thesis using ClickDrop by (simp add: step_def dropClick_hasCrafted)
qed

lemma run_hasCrafted: "hasCrafted s \<Longrightarrow> hasCrafted (run luck evs s)"
  unfolding run_def by (rule fold_invariant, assumption, rule step_hasCrafted)

section \<open>The small world, evaluated\<close>

lemma exampleWorld_snapshot:
  "snapshot exampleWorld [(0,0),(0,1),(0,2),(1,1),(1,0)] =
    ((0,0), None, False, [(0,0),(0,1),(0,2),(1,0),(1,1),(1,2)],
     [(Some 0, Some 4, None, Some NoPopup), (Some 1, Some 4, None, Some NoPopup),
      (Some 2, Some 3, None, Some NoPopup), (Some 3, Some 3, None, Some NoPopup),
      (None, None, None, Some InfoPopup)])"
  by code_simp

lemma carryingFour_snapshot:
  "snapshot carryingFour [(0,0),(0,1),(0,2),(1,1),(1,0)] =
    ((0,0), Some 4, False, [(0,0),(0,1),(0,2),(1,0),(1,1),(1,2)],
     [(None, None, Some None, Some NoPopup), (Some 1, Some 4, None, Some NoPopup),
      (Some 2, Some 3, None, Some NoPopup), (Some 3, Some 3, None, Some NoPopup),
      (None, None, None, Some InfoPopup)])"
  by code_simp

lemma emptiedCell_snapshot:
  "snapshot emptiedCell [(0,0),(0,1),(0,2),(1,1),(1,0)] =
    ((0,0), Some 4, False, [(0,0),(0,1),(0,2),(1,0),(1,1),(1,2)],
     [(None, None, Some None, Some DropPopup), (Some 4, Some 4, None, Some NoPopup),
      (Some 5, Some 3, None, Some NoPopup), (Some 6, Some 3, None, Some NoPopup),
      (None, None, None, Some InfoPopup)])"
  by code_simp

lemma exampleWorld_facts:
  "getPlayerCell exampleWorld = (0, 0)" "inventory exampleWorld = None"
  "\<not> hasCrafted exampleWorld"
  "caches exampleWorld (0, 0) = Some 0" "residentValue exampleWorld (0, 0) = Some 4"
  "caches exampleWorld (1, 1) = Some 3" "residentValue exampleWorld (1, 1) = Some 3"
  "caches exampleWorld (0, 2) = Some 2" "residentValue exampleWorld (0, 2) = Some 3"
  using exampleWorld_snapshot by (simp_all add: snapshot_def)

lemma carryingFour_facts:
  "getPlayerCell carryingFour = (0, 0)" "inventory carryingFour = Some 4"
  "\<not> hasCrafted carryingFour"
  "caches carryingFour (0, 1) = Some 1" "residentValue carryingFour (0, 1) = Some 4"
  "caches carryingFour (1, 1) = Some 3" "residentValue carryingFour (1, 1) = Some 3"
  "caches carryingFour (0, 2) = Some 2" "residentValue carryingFour (0, 2) = Some 3"
  "modifiedCaches carryingFour (0, 0) = Some None"
  "caches carryingFour (1, 0) = None" "modifiedCaches carryingFour (1, 0) = None"
  using carryingFour_snapshot by (simp_all add: snapshot_def)

lemma emptiedCell_facts:
  "getPlayerCell emptiedCell = (0, 0)" "inventory emptiedCell = Some 4"
  "caches emptiedCell (0, 0) = None" "residentValue emptiedCell (0, 0) = None"
  "modifiedCaches emptiedCell (0, 0) = Some None"
  "offered emptiedCell (ClickDrop (0, 0))"
  using emptiedCell_snapshot by (auto simp: snapshot_def offered_def split: option.splits)

lemma cacheValue_resident:
  "caches s key = Some c \<Longrightarrow> residentValue s key = Some v \<Longrightarrow> cacheValue s c = v"
  by (simp add: residentValue_def)

section \<open>Placing a token on an equal one\<close>

text \<open>
  C1. When the player carries a token of value \<open>v\<close>, the cell holds a resident cache of
  the same value and is within \<open>PROXIMITY_CELLS\<close> of the player's cell, a click on
  \<^verbatim>\<open>Place token\<close> in the popup of that cache reports the crafted value \<open>2 * v\<close>, sets
  the entry of the cell in \<open>modifiedCaches\<close> (and the resident cache) to \<open>2 * v\<close> and
  empties the inventory. Afterwards \<open>hasCrafted\<close> holds exactly if it held before or
  \<open>2 * v\<close> reaches \<open>WIN_THRESHOLD\<close>; it changes exactly if \<open>2 * v\<close> reaches the threshold
  and it was not set; and once it holds it holds after every sequence of events.
\<close>

theorem place_merges_equal_tokens:
  assumes "inventory s = Some v"
    and "caches s key = Some cached"
    and "cacheValue s cached = v"
    and "cellDistance (getPlayerCell s) key \<le> PROXIMITY_CELLS"
  shows "snd (placeClick key cached s) = Placed (2 * v)
       \<and> modifiedCaches (fst (placeClick key cached s)) key = Some (Some (2 * v))
       \<and> residentValue (fst (placeClick key cached s)) key = Some (2 * v)
       \<and> inventory (fst (placeClick key cached s)) = None
       \<and> (hasCrafted (fst (placeClick key cached s)) \<longleftrightarrow> hasCrafted s \<or> WIN_THRESHOLD \<le> 2 * v)
       \<and> (hasCrafted (fst (placeClick key cached s)) \<noteq> hasCrafted s
            \<longleftrightarrow> WIN_THRESHOLD \<le> 2 * v \<and> \<not> hasCrafted s)
       \<and> (\<forall>luck evs. hasCrafted (fst (placeClick key cached s))
            \<longrightarrow> hasCrafted (run luck evs (fst (placeClick key cached s))))"
proof -
  have "snd (placeClick key cached s) = Placed (2 * v)"
    using assms by (simp add: placeClick_def Let_def)
  moreover have "modifiedCaches (fst (placeClick key cached s)) key = Some (Some (2 * v))"
    using assms by (simp add: placeClick_def Let_def triggerWin_def)
  moreover have "residentValue (fst (placeClick key cached s)) key = Some (2 * v)"
    using assms by (simp add: placeClick_def Let_def triggerWin_def residentValue_def)
  moreover have "inventory (fst (placeClick key cached s)) = None"
    using assms by (simp add: placeClick_def Let_def triggerWin_def)
  moreover have w: "hasCrafted (fst (placeClick key cached s)) \<longleftrightarrow> hasCrafted s \<or> WIN_THRESHOLD \<le> 2 * v"
    using assms by (auto simp: placeClick_def Let_def triggerWin_def)
  moreover have "hasCrafted (fst (placeClick key cached s)) \<noteq> hasCrafted s
            \<longleftrightarrow> WIN_THRESHOLD \<le> 2 * v \<and> \<not> hasCrafted s"
    using w by auto
  moreover have "\<forall>luck evs. hasCrafted (fst (placeClick key cached s))
            \<longrightarrow> hasCrafted (run luck evs (fst (placeClick key cached s)))"
    by (simp add: run_hasCrafted)
  ultimately show ?thesis by blast
qed

theorem place_merges_equal_tokens_witness:
  "inventory carryingFour = Some 4 \<and> caches carryingFour (0, 1) = Some 1
   \<and> cacheValue carryingFour 1 = 4
   \<and> cellDistance (getPlayerCell carryingFour) (0, 1) \<le> PROXIMITY_CELLS
   \<and> \<not> hasCrafted carryingFour
   \<and> snd (placeClick (0, 1) 1 carryingFour) = Placed 8
   \<and> modifiedCaches (fst (placeClick (0, 1) 1 carryingFour)) (0, 1) = Some (Some 8)
   \<and> inventory (fst (placeClick (0, 1) 1 carryingFour)) = None
   \<and> hasCrafted (fst (placeClick (0, 1) 1 carryingFour))
   \<and> hasCrafted (run exampleLuck [MoveEnd farView, KeyDown ''w'' exampleView]
        (fst (placeClick (0, 1) 1 carryingFour)))"
proof -
  have h1: "inventory carryingFour = Some 4" by (rule carryingFour_facts)
  have h2: "caches carryingFour (0, 1) = Some 1" by (rule carryingFour_facts)
  have h3: "cacheValue carryingFour 1 = 4"
    by (rule cacheValue_resident [OF h2]) (rule carryingFour_facts)
  have h4: "cellDistance (getPlayerCell carryingFour) (0, 1) \<le> PROXIMITY_CELLS"
    by (simp add: carryingFour_facts cellDistance_def PROXIMITY_CELLS_def)
  have h5: "\<not> hasCrafted carryingFour" by (rule carryingFour_facts)
  show ?thesis
    using place_merges_equal_tokens [OF h1 h2 h3 h4] h1 h2 h3 h4 h5
    by (simp add: WIN_THRESHOLD_def)
qed

section \<open>The proximity check\<close>

lemma pickupClick_in_reach:
  assumes "cellDistance (getPlayerCell s) key \<le> PROXIMITY_CELLS"
  shows "inventory s = None \<longrightarrow>
           snd (pickupClick key cached s) = PickedUp
         \<and> inventory (fst (pickupClick key cached s)) = Some (cacheValue s cached)
         \<and> caches (fst (pickupClick key cached s)) key = None
         \<and> content (fst (pickupClick key cached s)) key = NoCache
         \<and> modifiedCaches (fst (pickupClick key cached s)) key = Some None
         \<and> (\<forall>k. k \<noteq> key \<longrightarrow>
               caches (fst (pickupClick key cached s)) k = caches s k
             \<and> modifiedCaches (fst (pickupClick key cached s)) k = modifiedCaches s k)"
    and "inventory s \<noteq> None \<longrightarrow> pickupClick key cached s = (s, AlreadyCarrying)"
  using assms by (simp_all add: pickupClick_def Let_def content_def residentValue_def)

lemma placeClick_in_reach:
  assumes "cellDistance (getPlayerCell s) key \<le> PROXIMITY_CELLS"
  shows "inventory s = None \<longrightarrow> placeClick key cached s = (s, NoTokenToPlace)"
    and "\<forall>v. inventory s = Some v \<and> v = cacheValue s cached \<longrightarrow>
           snd (placeClick key cached s) = Placed (2 * v)
         \<and> inventory (fst (placeClick key cached s)) = None
         \<and> cacheValue (fst (placeClick key cached s)) cached = 2 * v
         \<and> modifiedCaches (fst (placeClick key cached s)) key = Some (Some (2 * v))
         \<and> caches (fst (placeClick key cached s)) = caches s
         \<and> (hasCrafted (fst (placeClick key cached s))
               \<longleftrightarrow> hasCrafted s \<or> WIN_THRESHOLD \<le> 2 * v)
         \<and> (\<forall>k. k \<noteq> key \<longrightarrow>
               modifiedCaches (fst (placeClick key cached s)) k = modifiedCaches s k)"
    and "\<forall>v. inventory s = Some v \<and> v \<noteq> cacheValue s cached \<longrightarrow>
           placeClick key cached s = (s, ValueMismatch)"
  using assms by (auto simp: placeClick_def Let_def triggerWin_def)

lemma dropClick_in_reach:
  assumes "cellDistance (getPlayerCell s) key \<le> PROXIMITY_CELLS"
  shows "inventory s = None \<longrightarrow> dropClick key s = (s, NoTokenToDrop)"
    and "\<forall>v. inventory s = Some v \<longrightarrow>
           snd (dropClick key s) = Dropped v
         \<and> inventory (fst (dropClick key s)) = None
         \<and> content (fst (dropClick key s)) key = Cache v
         \<and> modifiedCaches (fst (dropClick key s)) key = Some (Some v)
         \<and> (\<forall>k. k \<noteq> key \<longrightarrow>
               caches (fst (dropClick key s)) k = caches s k
             \<and> modifiedCaches (fst (dropClick key s)) k = modifiedCaches s k)"
  using assms
  by (simp_all add: dropClick_def Let_def newCache_def content_def residentValue_def)

text \<open>
  C6. The distance between the player's cell and a cell is the larger of the two
  differences of their indices. At a distance of exactly \<open>PROXIMITY_CELLS\<close> no handler
  answers \<^verbatim>\<open>Too far\<close>: each goes on to its other checks, and when they hold it succeeds
  and changes the state. A pickup with an empty inventory takes the value of the cache
  into the inventory, removes the cache and records the cell as emptied; a placement
  on an equal value doubles the cache, records the doubled value, empties the inventory
  and sets the win flag if the threshold is reached; a drop makes a cache of the
  carried value, records it and empties the inventory; none of them touches the entry
  of another cell. When another check fails, the state stays as it is and the answer
  names that check. At a distance of \<open>PROXIMITY_CELLS + 1\<close> every handler leaves the
  state as it is and reports \<^verbatim>\<open>Too far\<close> with that distance.
\<close>

theorem proximity_boundary:
  "cellDistance (getPlayerCell s) key
     = max \<bar>fst (getPlayerCell s) - fst key\<bar> \<bar>snd (getPlayerCell s) - snd key\<bar>
   \<and> (cellDistance (getPlayerCell s) key = PROXIMITY_CELLS \<longrightarrow>
        snd (pickupClick key cached s)
          = (if inventory s = None then PickedUp else AlreadyCarrying)
      \<and> snd (placeClick key cached s)
          = (case inventory s of
               None \<Rightarrow> NoTokenToPlace
             | Some v \<Rightarrow> if v = cacheValue s cached then Placed (2 * v) else ValueMismatch)
      \<and> snd (dropClick key s)
          = (case inventory s of None \<Rightarrow> NoTokenToDrop | Some v \<Rightarrow> Dropped v)
      \<and> (inventory s = None \<longrightarrow>
            inventory (fst (pickupClick key cached s)) = Some (cacheValue s cached)
          \<and> caches (fst (pickupClick key cached s)) key = None
          \<and> content (fst (pickupClick key cached s)) key = NoCache
          \<and> modifiedCaches (fst (pickupClick key cached s)) key = Some None
          \<and> (\<forall>k. k \<noteq> key \<longrightarrow>
                caches (fst (pickupClick key cached s)) k = caches s k
              \<and> modifiedCaches (fst (pickupClick key cached s)) k = modifiedCaches s k)
          \<and> fst (placeClick key cached s) = s
          \<and> fst (dropClick key s) = s)
      \<and> (inventory s \<noteq> None \<longrightarrow> fst (pickupClick key cached s) = s)
      \<and> (\<forall>v. inventory s = Some v \<and> v = cacheValue s cached \<longrightarrow>
            inventory (fst (placeClick key cached s)) = None
          \<and> cacheValue (fst (placeClick key cached s)) cached = 2 * v
          \<and> modifiedCaches (fst (placeClick key cached s)) key = Some (Some (2 * v))
          \<and> caches (fst (placeClick key cached s)) = caches s
          \<and> (hasCrafted (fst (placeClick key cached s))
                \<longleftrightarrow> hasCrafted s \<or> WIN_THRESHOLD \<le> 2 * v)
          \<and> (\<forall>k. k \<noteq> key \<longrightarrow>
                modifiedCaches (fst (placeClick key cached s)) k = modifiedCaches s k))
      \<and> (\<forall>v. inventory s = Some v \<and> v \<noteq> cacheValue s cached \<longrightarrow>
            fst (placeClick key cached s) = s)
      \<and> (\<forall>v. inventory s = Some v \<longrightarrow>
            inventory (fst (dropClick key s)) = None
          \<and> content (fst (dropClick key s)) key = Cache v
          \<and> modifiedCaches (fst (dropClick key s)) key = Some (Some v)
          \<and> (\<forall>k. k \<noteq> key \<longrightarrow>
                caches (fst (dropClick key s)) k = caches s k
              \<and> modifiedCaches (fst (dropClick key s)) k = modifiedCaches s k)))
   \<and> (cellDistance (getPlayerCell s) key = PROXIMITY_CELLS + 1 \<longrightarrow>
        pickupClick key cached s = (s, TooFar (PROXIMITY_CELLS + 1))
      \<and> placeClick key cached s = (s, TooFar (PROXIMITY_CELLS + 1))
      \<and> dropClick key s = (s, TooFar (PROXIMITY_CELLS + 1)))"
proof -
  have dist: "cellDistance (getPlayerCell s) key
     = max \<bar>fst (getPlayerCell s) - fst key\<bar> \<bar>snd (getPlayerCell s) - snd key\<bar>"
    by (simp add: cellDistance_def)
  have far: "cellDistance (getPlayerCell s) key = PROXIMITY_CELLS + 1 \<longrightarrow>
        pickupClick key cached s = (s, TooFar (PROXIMITY_CELLS + 1))
      \<and> placeClick key cached s = (s, TooFar (PROXIMITY_CELLS + 1))
      \<and> dropClick key s = (s, TooFar (PROXIMITY_CELLS + 1))"
    by (simp add: pickupClick_def placeClick_def dropClick_def Let_def)
  show ?thesis
  proof (cases "cellDistance (getPlayerCell s) key = PROXIMITY_CELLS")
    case False
    then show ?thesis using dist far by blast
  next
    case True
    then have reach: "cellDistance (getPlayerCell s) key \<le> PROXIMITY_CELLS" by simp
    have answers: "snd (pickupClick key cached s)
          = (if inventory s = None then PickedUp else AlreadyCarrying)
      \<and> snd (placeClick key cached s)
          = (case inventory s of
               None \<Rightarrow> NoTokenToPlace
             | Some v \<Rightarrow> if v = cacheValue s cached then Placed (2 * v) else ValueMismatch)
      \<and> snd (dropClick key s)
          = (case inventory s of None \<Rightarrow> NoTokenToDrop | Some v \<Rightarrow> Dropped v)"
      using True
      by (simp add: pickupClick_def placeClick_def dropClick_def Let_def split: option.splits)
    note pick = pickupClick_in_reach [OF reach, of cached]
    note place = placeClick_in_reach [OF reach, of cached]
    note drop = dropClick_in_reach [OF reach]
    have empty: "inventory s = None \<longrightarrow>
            inventory (fst (pickupClick key cached s)) = Some (cacheValue s cached)
          \<and> caches (fst (pickupClick key cached s)) key = None
          \<and> content (fst (pickupClick key cached s)) key = NoCache
          \<and> modifiedCaches (fst (pickupClick key cached s)) key = Some None
          \<and> (\<forall>k. k \<noteq> key \<longrightarrow>
                caches (fst (pickupClick key cached s)) k = caches s k
              \<and> modifiedCaches (fst (pickupClick key cached s)) k = modifiedCaches s k)
          \<and> fst (placeClick key cached s) = s
          \<and> fst (dropClick key s) = s"
      using pick(1) place(1) drop(1) by simp
    have carrying: "inventory s \<noteq> None \<longrightarrow> fst (pickupClick key cached s) = s"
      using pick(2) by simp
    have mismatch: "\<forall>v. inventory s = Some v \<and> v \<noteq> cacheValue s cached \<longrightarrow>
            fst (placeClick key cached s) = s"
      using place(3) by simp
    show ?thesis
      using dist far answers empty carrying place(2) mismatch drop(2) by blast
  qed
qed

theorem proximity_boundary_witness:
  "cellDistance (getPlayerCell exampleWorld) (1, 1) = PROXIMITY_CELLS
   \<and> inventory exampleWorld = None
   \<and> snd (pickupClick (1, 1) 3 exampleWorld) = PickedUp
   \<and> inventory (fst (pickupClick (1, 1) 3 exampleWorld)) = Some 3
   \<and> content (fst (pickupClick (1, 1) 3 exampleWorld)) (1, 1) = NoCache
   \<and> modifiedCaches (fst (pickupClick (1, 1) 3 exampleWorld)) (1, 1) = Some None
   \<and> cellDistance (getPlayerCell carryingFour) (0, 1) = PROXIMITY_CELLS
   \<and> inventory carryingFour = Some 4 \<and> cacheValue carryingFour 1 = 4
   \<and> snd (placeClick (0, 1) 1 carryingFour) = Placed 8
   \<and> inventory (fst (placeClick (0, 1) 1 carryingFour)) = None
   \<and> modifiedCaches (fst (placeClick (0, 1) 1 carryingFour)) (0, 1) = Some (Some 8)
   \<and> content (fst (dropClick (0, 1) carryingFour)) (0, 1) = Cache 4
   \<and> fst (pickupClick (0, 1) 1 carryingFour) = carryingFour
   \<and> cellDistance (getPlayerCell carryingFour) (1, 1) = PROXIMITY_CELLS
   \<and> cacheValue carryingFour 3 = 3
   \<and> fst (placeClick (1, 1) 3 carryingFour) = carryingFour
   \<and> cellDistance (getPlayerCell exampleWorld) (0, 2) = PROXIMITY_CELLS + 1
   \<and> pickupClick (0, 2) 2 exampleWorld = (exampleWorld, TooFar 2)
   \<and> placeClick (0, 2) 2 exampleWorld = (exampleWorld, TooFar 2)"
proof -
  have near: "cellDistance (getPlayerCell exampleWorld) (1, 1) = PROXIMITY_CELLS"
    by (simp add: exampleWorld_facts cellDistance_def PROXIMITY_CELLS_def)
  have far: "cellDistance (getPlayerCell exampleWorld) (0, 2) = PROXIMITY_CELLS + 1"
    by (simp add: exampleWorld_facts cellDistance_def PROXIMITY_CELLS_def)
  have none: "inventory exampleWorld = None" by (rule exampleWorld_facts)
  have three: "cacheValue exampleWorld 3 = 3"
    by (rule cacheValue_resident [OF exampleWorld_facts(6) exampleWorld_facts(7)])
  have near4: "cellDistance (getPlayerCell carryingFour) (0, 1) = PROXIMITY_CELLS"
    by (simp add: carryingFour_facts cellDistance_def PROXIMITY_CELLS_def)
  have near3: "cellDistance (getPlayerCell carryingFour) (1, 1) = PROXIMITY_CELLS"
    by (simp add: carryingFour_facts cellDistance_def PROXIMITY_CELLS_def)
  have four: "inventory carryingFour = Some 4" by (rule carryingFour_facts)
  have v4: "cacheValue carryingFour 1 = 4"
    by (rule cacheValue_resident [OF carryingFour_facts(4) carryingFour_facts(5)])
  have v3: "cacheValue carryingFour 3 = 3"
    by (rule cacheValue_resident [OF carryingFour_facts(6) carryingFour_facts(7)])
  show ?thesis
    using proximity_boundary [of exampleWorld "(1, 1)" 3]
      proximity_boundary [of exampleWorld "(0, 2)" 2]
      proximity_boundary [of carryingFour "(0, 1)" 1]
      proximity_boundary [of carryingFour "(1, 1)" 3]
      near far none three near4 near3 four v4 v3
    by (simp add: PROXIMITY_CELLS_def)
qed

section \<open>Pickup while carrying\<close>

text \<open>
  C5, as stated: with a token in the inventory, a click on \<^verbatim>\<open>Pick up\<close> is answered
  \<^verbatim>\<open>You're already carrying a token\<close> at any cell. It is not: the distance is checked
  first, and for the cache at \<open>(0, 2)\<close>, two cells away, the answer is \<^verbatim>\<open>Too far\<close>.
\<close>

theorem pickup_while_carrying_counterexample:
  "inventory carryingFour = Some 4
   \<and> caches carryingFour (0, 2) = Some 2
   \<and> snd (pickupClick (0, 2) 2 carryingFour) = TooFar 2
   \<and> snd (pickupClick (0, 2) 2 carryingFour) \<noteq> AlreadyCarrying"
  by (simp add: carryingFour_facts pickupClick_def Let_def cellDistance_def PROXIMITY_CELLS_def)

text \<open>
  C5, amended. With a token in the inventory, a click on \<^verbatim>\<open>Pick up\<close> at any cell and
  with any cache object is rejected and returns the state as it was (so the inventory,
  the entry of the cell in \<open>modifiedCaches\<close> and its resident cache are unchanged): the
  answer is \<^verbatim>\<open>You're already carrying a token\<close> when the cell is within
  \<open>PROXIMITY_CELLS\<close>, and \<^verbatim>\<open>Too far\<close> with the distance otherwise. A click that answers
  \<^verbatim>\<open>Picked up\<close> starts from an empty inventory.
\<close>

theorem pickup_while_carrying:
  "(inventory s = Some v \<longrightarrow>
      fst (pickupClick key cached s) = s
    \<and> inventory (fst (pickupClick key cached s)) = Some v
    \<and> modifiedCaches (fst (pickupClick key cached s)) key = modifiedCaches s key
    \<and> content (fst (pickupClick key cached s)) key = content s key
    \<and> snd (pickupClick key cached s)
        = (if cellDistance (getPlayerCell s) key \<le> PROXIMITY_CELLS then AlreadyCarrying
           else TooFar (cellDistance (getPlayerCell s) key)))
   \<and> (snd (pickupClick key cached s) = PickedUp \<longrightarrow> inventory s = None)"
proof (cases "inventory s")
  case None
  then show ?thesis by simp
next
  case (Some w)
  then have same: "fst (pickupClick key cached s) = s"
    by (simp add: pickupClick_def Let_def)
  have answer: "snd (pickupClick key cached s)
        = (if cellDistance (getPlayerCell s) key \<le> PROXIMITY_CELLS then AlreadyCarrying
           else TooFar (cellDistance (getPlayerCell s) key))"
    using Some by (simp add: pickupClick_def Let_def)
  then have "snd (pickupClick key cached s) \<noteq> PickedUp" by simp
  then show ?thesis using same answer by simp
qed

theorem pickup_while_carrying_witness:
  "inventory carryingFour = Some 4
   \<and> fst (pickupClick (0, 1) 1 carryingFour) = carryingFour
   \<and> snd (pickupClick (0, 1) 1 carryingFour) = AlreadyCarrying
   \<and> fst (pickupClick (0, 2) 2 carryingFour) = carryingFour
   \<and> snd (pickupClick (0, 2) 2 carryingFour) = TooFar 2
   \<and> snd (pickupClick (0, 0) 0 exampleWorld) = PickedUp
   \<and> inventory exampleWorld = None"
proof -
  have c: "inventory carryingFour = Some 4" by (rule carryingFour_facts)
  have near: "cellDistance (getPlayerCell carryingFour) (0, 1) = 1"
    by (simp add: carryingFour_facts cellDistance_def)
  have far: "cellDistance (getPlayerCell carryingFour) (0, 2) = 2"
    by (simp add: carryingFour_facts cellDistance_def)
  have p: "snd (pickupClick (0, 0) 0 exampleWorld) = PickedUp"
    by (simp add: exampleWorld_facts pickupClick_def Let_def cellDistance_def PROXIMITY_CELLS_def)
  show ?thesis
    using pickup_while_carrying [of carryingFour 4 "(0, 1)" 1]
      pickup_while_carrying [of carryingFour 4 "(0, 2)" 2]
      pickup_while_carrying [of exampleWorld 4 "(0, 0)" 0] c near far p
    by (simp add: PROXIMITY_CELLS_def)
qed

section \<open>Placing on a different value\<close>

text \<open>
  C7, as stated: carrying \<open>v\<close>, a click on \<^verbatim>\<open>Place token\<close> at a resident cache of another
  value is answered \<^verbatim>\<open>Token values do not match\<close>. It is not when the cache is out of
  reach: carrying 4, the cache of value 3 at \<open>(0, 2)\<close> answers \<^verbatim>\<open>Too far\<close>.
\<close>

theorem place_mismatch_counterexample:
  "inventory carryingFour = Some 4
   \<and> caches carryingFour (0, 2) = Some 2
   \<and> residentValue carryingFour (0, 2) = Some 3
   \<and> snd (placeClick (0, 2) 2 carryingFour) = TooFar 2
   \<and> snd (placeClick (0, 2) 2 carryingFour) \<noteq> ValueMismatch"
  by (simp add: carryingFour_facts placeClick_def Let_def cellDistance_def PROXIMITY_CELLS_def)

text \<open>
  C7, amended. When the player carries \<open>v\<close> and the cell holds a resident cache of
  another value, a click on \<^verbatim>\<open>Place token\<close> in the popup of that cache is rejected and
  returns the state as it was (inventory, value of the cache and every entry of
  \<open>modifiedCaches\<close> unchanged): the answer is \<^verbatim>\<open>Token values do not match\<close> when the cell
  is within \<open>PROXIMITY_CELLS\<close>, and \<^verbatim>\<open>Too far\<close> with the distance otherwise.
\<close>

theorem place_mismatch:
  assumes "inventory s = Some v"
    and "caches s key = Some cached"
    and "cacheValue s cached = v'"
    and "v' \<noteq> v"
  shows "fst (placeClick key cached s) = s
       \<and> inventory (fst (placeClick key cached s)) = Some v
       \<and> residentValue (fst (placeClick key cached s)) key = Some v'
       \<and> modifiedCaches (fst (placeClick key cached s)) = modifiedCaches s
       \<and> snd (placeClick key cached s)
           = (if cellDistance (getPlayerCell s) key \<le> PROXIMITY_CELLS then ValueMismatch
              else TooFar (cellDistance (getPlayerCell s) key))"
proof -
  have same: "fst (placeClick key cached s) = s"
    using assms by (auto simp: placeClick_def Let_def)
  have resident: "residentValue s key = Some v'"
    using assms by (simp add: residentValue_def)
  have answer: "snd (placeClick key cached s)
           = (if cellDistance (getPlayerCell s) key \<le> PROXIMITY_CELLS then ValueMismatch
              else TooFar (cellDistance (getPlayerCell s) key))"
    using assms by (auto simp: placeClick_def Let_def)
  show ?thesis using same resident answer assms(1) by simp
qed

theorem place_mismatch_witness:
  "inventory carryingFour = Some 4 \<and> caches carryingFour (1, 1) = Some 3
   \<and> cacheValue carryingFour 3 = 3
   \<and> fst (placeClick (1, 1) 3 carryingFour) = carryingFour
   \<and> snd (placeClick (1, 1) 3 carryingFour) = ValueMismatch"
proof -
  have h1: "inventory carryingFour = Some 4" by (rule carryingFour_facts)
  have h2: "caches carryingFour (1, 1) = Some 3" by (rule carryingFour_facts)
  have h3: "cacheValue carryingFour 3 = 3"
    by (rule cacheValue_resident [OF h2]) (rule carryingFour_facts)
  have h4: "(3::int) \<noteq> 4" by simp
  have near: "cellDistance (getPlayerCell carryingFour) (1, 1) = 1"
    by (simp add: carryingFour_facts cellDistance_def)
  show ?thesis
    using place_mismatch [OF h1 h2 h3 h4] h1 h2 h3 near
    by (simp add: PROXIMITY_CELLS_def)
qed

section \<open>Resolving the content of a cell\<close>

lemma content_newCache: "content (newCache key val s) key = Cache val"
  by (simp add: content_def residentValue_def newCache_def)

lemma content_no_cache: "caches s key = None \<Longrightarrow> content s key = NoCache"
  by (simp add: content_def residentValue_def)

lemma drawCell_content:
  "caches s (i, j) = None \<Longrightarrow>
   content (snd (drawCell luck i j s)) (i, j) = spec_resolve (modifiedCaches s) (generate luck) (i, j)"
  by (simp add: drawCell_def Let_def spec_resolve_def generate_def content_newCache content_no_cache
      split: option.splits)

lemma drawCell_overlay_only:
  "modifiedCaches s (i, j) \<noteq> None \<Longrightarrow> drawCell luck' i j s = drawCell luck i j s"
  by (auto simp: drawCell_def Let_def split: option.splits)

text \<open>
  C3. Drawing a cell that has no resident cache yet resolves its content as the spec
  says: an entry \<^verbatim>\<open>null\<close> in \<open>modifiedCaches\<close> gives no cache, an entry \<open>v\<close> gives a cache of
  value \<open>v\<close>, and in both cases \<^verbatim>\<open>luck\<close> is not consulted (the result is the same for
  every \<^verbatim>\<open>luck\<close>); without an entry the cell holds what the generator gives.
\<close>

theorem overlay_is_authoritative:
  assumes "caches s (i, j) = None"
  shows "content (snd (drawCell luck i j s)) (i, j)
           = spec_resolve (modifiedCaches s) (generate luck) (i, j)
       \<and> (modifiedCaches s (i, j) = Some None \<longrightarrow>
            content (snd (drawCell luck i j s)) (i, j) = NoCache)
       \<and> (\<forall>v. modifiedCaches s (i, j) = Some (Some v) \<longrightarrow>
            content (snd (drawCell luck i j s)) (i, j) = Cache v)
       \<and> (modifiedCaches s (i, j) \<noteq> None \<longrightarrow>
            (\<forall>luck'. drawCell luck' i j s = drawCell luck i j s))
       \<and> (modifiedCaches s (i, j) = None \<longrightarrow>
            content (snd (drawCell luck i j s)) (i, j) = generate luck i j)"
proof -
  have r: "content (snd (drawCell luck i j s)) (i, j)
           = spec_resolve (modifiedCaches s) (generate luck) (i, j)"
    using assms by (rule drawCell_content)
  moreover have "modifiedCaches s (i, j) = Some None \<longrightarrow>
            content (snd (drawCell luck i j s)) (i, j) = NoCache"
    using r by (simp add: spec_resolve_def)
  moreover have "\<forall>v. modifiedCaches s (i, j) = Some (Some v) \<longrightarrow>
            content (snd (drawCell luck i j s)) (i, j) = Cache v"
    using r by (simp add: spec_resolve_def)
  moreover have "modifiedCaches s (i, j) \<noteq> None \<longrightarrow>
            (\<forall>luck'. drawCell luck' i j s = drawCell luck i j s)"
    by (simp add: drawCell_overlay_only)
  moreover have "modifiedCaches s (i, j) = None \<longrightarrow>
            content (snd (drawCell luck i j s)) (i, j) = generate luck i j"
    using r by (simp add: spec_resolve_def)
  ultimately show ?thesis by blast
qed


theorem overlay_is_authoritative_witness:
  "caches emptiedCell (0, 0) = None \<and> modifiedCaches emptiedCell (0, 0) = Some None
   \<and> generate exampleLuck 0 0 = Cache 4
   \<and> content (snd (drawCell exampleLuck 0 0 emptiedCell)) (0, 0) = NoCache
   \<and> caches initialState (0, 0) = None \<and> modifiedCaches initialState (0, 0) = None
   \<and> content (snd (drawCell exampleLuck 0 0 initialState)) (0, 0) = Cache 4"
proof -
  have h: "caches emptiedCell (0, 0) = None" by (rule emptiedCell_facts)
  have m: "modifiedCaches emptiedCell (0, 0) = Some None" by (rule emptiedCell_facts)
  have h0: "caches initialState (0, 0) = None" by (simp add: initialState_def)
  have m0: "modifiedCaches initialState (0, 0) = None" by (simp add: initialState_def)
  have g: "generate exampleLuck 0 0 = Cache 4" by code_simp
  show ?thesis
    using overlay_is_authoritative [OF h, of exampleLuck]
      overlay_is_authoritative [OF h0, of exampleLuck] h m h0 m0 g
    by (simp add: spec_resolve_def)
qed

section \<open>The generator is a function of the cell\<close>

lemma cellRendered_content:
  assumes "\<not> hasRecord s (i, j)" and "caches s (i, j) = None"
  shows "content (cellRendered luck i j s) (i, j)
           = spec_resolve (modifiedCaches s) (generate luck) (i, j)"
proof -
  have "content (cellRendered luck i j s) (i, j) = content (snd (drawCell luck i j s)) (i, j)"
    using assms(1)
    by (cases "drawCell luck i j s")
       (simp add: cellRendered_def Let_def content_def residentValue_def)
  then show ?thesis using assms(2) by (simp add: drawCell_content)
qed

lemma removeCell_caches: "caches (removeCell i j s) = (caches s)((i, j) := None)"
  by (auto simp: removeCell_def Let_def split: option.splits)

lemma removeCell_modifiedCaches: "modifiedCaches (removeCell i j s) = modifiedCaches s"
  using removeCell_untouched [of s i j] by (simp add: untouched_def)

lemma removeCell_keys:
  "set (map fst (cellRecords (removeCell i j s))) = set (map fst (cellRecords s)) - {(i, j)}"
proof (cases "map_of (cellRecords s) (i, j)")
  case None
  then have "(i, j) \<notin> set (map fst (cellRecords s))"
    by (simp add: map_of_eq_None_iff)
  then show ?thesis using None
    by (simp add: removeCell_def Let_def split: option.splits)
next
  case (Some r)
  then show ?thesis
    by (simp add: removeCell_def Let_def delete_keys del: set_map split: option.splits)
qed

lemma removeCell_no_record: "\<not> hasRecord (removeCell i j s) (i, j)"
  unfolding hasRecord_def removeCell_keys by simp

text \<open>
  C9. The content that the program generates for an unmodified cell is a function of
  \<^verbatim>\<open>luck\<close> and of the indices alone: drawing the cell in any two states gives the same
  presence and the same value, namely \<open>generate luck i j\<close>; drawing it, removing it and
  drawing it again gives the same content; and with any overlay, two states that agree
  on the entry of the cell resolve it alike. (\<^verbatim>\<open>luck\<close> itself is taken to be a function
  of its argument.)
\<close>

theorem generation_is_deterministic:
  "(modifiedCaches s (i, j) = None \<and> caches s (i, j) = None \<longrightarrow>
      content (snd (drawCell luck i j s)) (i, j) = generate luck i j)
   \<and> (modifiedCaches s (i, j) = modifiedCaches t (i, j)
        \<and> caches s (i, j) = None \<and> caches t (i, j) = None \<longrightarrow>
      content (snd (drawCell luck i j s)) (i, j) = content (snd (drawCell luck i j t)) (i, j))
   \<and> (\<not> hasRecord s (i, j) \<and> caches s (i, j) = None \<longrightarrow>
      content (cellRendered luck i j (removeCell i j (cellRendered luck i j s))) (i, j)
        = content (cellRendered luck i j s) (i, j))"
proof -
  have "modifiedCaches s (i, j) = None \<and> caches s (i, j) = None \<longrightarrow>
      content (snd (drawCell luck i j s)) (i, j) = generate luck i j"
    by (simp add: drawCell_content spec_resolve_def)
  moreover have "modifiedCaches s (i, j) = modifiedCaches t (i, j)
        \<and> caches s (i, j) = None \<and> caches t (i, j) = None \<longrightarrow>
      content (snd (drawCell luck i j s)) (i, j) = content (snd (drawCell luck i j t)) (i, j)"
    by (simp add: drawCell_content spec_resolve_def)
  moreover have "\<not> hasRecord s (i, j) \<and> caches s (i, j) = None \<longrightarrow>
      content (cellRendered luck i j (removeCell i j (cellRendered luck i j s))) (i, j)
        = content (cellRendered luck i j s) (i, j)"
  proof
    assume a: "\<not> hasRecord s (i, j) \<and> caches s (i, j) = None"
    let ?s2 = "removeCell i j (cellRendered luck i j s)"
    have m: "modifiedCaches ?s2 = modifiedCaches s"
      using cellRendered_untouched [of s luck i j]
      by (simp add: removeCell_modifiedCaches untouched_def)
    have "content (cellRendered luck i j ?s2) (i, j)
            = spec_resolve (modifiedCaches ?s2) (generate luck) (i, j)"
      by (rule cellRendered_content) (simp_all add: removeCell_no_record removeCell_caches)
    then show "content (cellRendered luck i j ?s2) (i, j) = content (cellRendered luck i j s) (i, j)"
      using a m by (simp add: cellRendered_content)
  qed
  ultimately show ?thesis by blast
qed

theorem generation_is_deterministic_witness:
  "content (snd (drawCell exampleLuck 0 0 initialState)) (0, 0) = Cache 4
   \<and> content (snd (drawCell exampleLuck 0 0 initialState)) (0, 0)
       = content (snd (drawCell exampleLuck 0 0 (initialState\<lparr>inventory := Some 1\<rparr>))) (0, 0)
   \<and> content (cellRendered exampleLuck 0 0 (removeCell 0 0 (cellRendered exampleLuck 0 0 initialState))) (0, 0)
       = content (cellRendered exampleLuck 0 0 initialState) (0, 0)"
proof -
  have g: "generate exampleLuck 0 0 = Cache 4" by code_simp
  have a: "modifiedCaches initialState (0, 0) = None \<and> caches initialState (0, 0) = None"
    by (simp add: initialState_def)
  have b: "modifiedCaches initialState (0, 0) = modifiedCaches (initialState\<lparr>inventory := Some 1\<rparr>) (0, 0)
      \<and> caches initialState (0, 0) = None \<and> caches (initialState\<lparr>inventory := Some 1\<rparr>) (0, 0) = None"
    by (simp add: initialState_def)
  have c: "\<not> hasRecord initialState (0, 0) \<and> caches initialState (0, 0) = None"
    by (simp add: initialState_def hasRecord_def)
  show ?thesis
    using generation_is_deterministic
      [where s = initialState and t = "initialState\<lparr>inventory := Some 1\<rparr>"
         and luck = exampleLuck and i = 0 and j = 0] a b c g
    by metis
qed

section \<open>An emptied cell has no cache\<close>

lemma drawCell_emptyMeansNoCache:
  "emptyMeansNoCache s key \<Longrightarrow> emptyMeansNoCache (snd (drawCell luck i j s)) key"
  by (auto simp: emptyMeansNoCache_def drawCell_def Let_def newCache_def split: option.splits)

lemma cellRendered_emptyMeansNoCache:
  assumes "emptyMeansNoCache s key"
  shows "emptyMeansNoCache (cellRendered luck i j s) key"
proof -
  have "emptyMeansNoCache (snd (drawCell luck i j s)) key"
    using assms by (rule drawCell_emptyMeansNoCache)
  then show ?thesis
    using assms
    by (cases "drawCell luck i j s") (simp add: cellRendered_def Let_def emptyMeansNoCache_def)
qed

lemma removeCell_emptyMeansNoCache:
  "emptyMeansNoCache s key \<Longrightarrow> emptyMeansNoCache (removeCell i j s) key"
  by (simp add: emptyMeansNoCache_def removeCell_caches removeCell_modifiedCaches)

lemma visitCell_emptyMeansNoCache:
  "emptyMeansNoCache (snd (snd acc)) key \<Longrightarrow>
   emptyMeansNoCache (snd (snd (visitCell luck i j acc))) key"
  by (cases acc) (simp add: visitCell_def cellRendered_emptyMeansNoCache)

lemma removeUnwanted_emptyMeansNoCache:
  "emptyMeansNoCache (snd acc) key \<Longrightarrow> emptyMeansNoCache (snd (removeUnwanted w k acc)) key"
  by (cases acc) (simp add: removeUnwanted_def removeCell_emptyMeansNoCache)

lemma updateVisibleCells_emptyMeansNoCache:
  assumes "emptyMeansNoCache s key"
  shows "emptyMeansNoCache (snd (snd (updateVisibleCells luck bounds s))) key"
proof -
  have r: "emptyMeansNoCache (snd (snd (afterRender luck bounds s))) key"
    unfolding afterRender_def renderLoop_def
    by (rule fold_invariant, simp add: assms, rule fold_invariant, assumption,
        rule visitCell_emptyMeansNoCache)
  show ?thesis
    unfolding updateVisibleCells_unfold snd_conv removeLoop_def
    by (rule fold_invariant, simp add: r, rule removeUnwanted_emptyMeansNoCache)
qed

lemma pickupClick_emptyMeansNoCache:
  "emptyMeansNoCache s key \<Longrightarrow> emptyMeansNoCache (fst (pickupClick k c s)) key"
  by (simp add: emptyMeansNoCache_def pickupClick_def Let_def)

lemma placeClick_emptyMeansNoCache:
  "emptyMeansNoCache s key \<Longrightarrow> emptyMeansNoCache (fst (placeClick k c s)) key"
  by (simp add: emptyMeansNoCache_def placeClick_def Let_def triggerWin_def split: option.splits)

lemma dropClick_emptyMeansNoCache:
  "emptyMeansNoCache s key \<Longrightarrow> emptyMeansNoCache (fst (dropClick k s)) key"
  by (simp add: emptyMeansNoCache_def dropClick_def Let_def newCache_def split: option.splits)

lemma movePlayerByCells_emptyMeansNoCache:
  "emptyMeansNoCache s key \<Longrightarrow> emptyMeansNoCache (movePlayerByCells luck a b bounds s) key"
  unfolding movePlayerByCells_def Let_def
  by (rule updateVisibleCells_emptyMeansNoCache) (simp add: emptyMeansNoCache_def)

lemma step_emptyMeansNoCache:
  "emptyMeansNoCache s key \<Longrightarrow> emptyMeansNoCache (step luck ev s) key"
  by (cases ev)
     (simp_all add: step_def movePlayerByCells_emptyMeansNoCache
        updateVisibleCells_emptyMeansNoCache pickupClick_emptyMeansNoCache
        placeClick_emptyMeansNoCache dropClick_emptyMeansNoCache)

lemma run_emptyMeansNoCache:
  "emptyMeansNoCache s key \<Longrightarrow> emptyMeansNoCache (run luck evs s) key"
  unfolding run_def by (rule fold_invariant, assumption, rule step_emptyMeansNoCache)

lemma initialState_emptyMeansNoCache: "emptyMeansNoCache initialState key"
  by (simp add: emptyMeansNoCache_def initialState_def)

lemma run_MoveEnd_untouched: "untouched s (run luck (map MoveEnd views) s)"
  unfolding run_def
proof (rule fold_invariant)
  show "untouched s s" by (rule untouched_refl)
next
  fix ev t
  assume "ev \<in> set (map MoveEnd views)" and t: "untouched s t"
  then obtain b where "ev = MoveEnd b" by auto
  then show "untouched s (step luck ev t)"
    using t updateVisibleCells_untouched [of t luck b]
    by (auto simp: step_def intro: untouched_trans)
qed

section \<open>Leaving the viewport and coming back\<close>

text \<open>
  C2. Removing the record of a cell writes nothing to \<open>modifiedCaches\<close>. After a pickup
  at a cell, removing the cell and drawing it again gives the state of the overlay
  after the pickup: the entry of the cell is \<^verbatim>\<open>null\<close>, the cell has no cache and its
  rectangle offers \<^verbatim>\<open>Drop token here\<close>, whatever \<^verbatim>\<open>luck\<close> would generate there. The same
  holds after any sequence of viewport updates: the overlay is the one after the
  pickup and the cell has no cache.
\<close>

theorem eviction_keeps_overlay:
  "modifiedCaches (removeCell i j s) = modifiedCaches s
   \<and> (snd (pickupClick (i, j) cached s) = PickedUp \<longrightarrow>
        modifiedCaches (fst (pickupClick (i, j) cached s)) (i, j) = Some None
      \<and> modifiedCaches (cellRendered luck i j (removeCell i j (fst (pickupClick (i, j) cached s))))
          = modifiedCaches (fst (pickupClick (i, j) cached s))
      \<and> content (cellRendered luck i j (removeCell i j (fst (pickupClick (i, j) cached s)))) (i, j)
          = NoCache
      \<and> offered (cellRendered luck i j (removeCell i j (fst (pickupClick (i, j) cached s))))
          (ClickDrop (i, j))
      \<and> (\<forall>views.
            modifiedCaches (run luck (map MoveEnd views) (fst (pickupClick (i, j) cached s)))
              = modifiedCaches (fst (pickupClick (i, j) cached s))
          \<and> content (run luck (map MoveEnd views) (fst (pickupClick (i, j) cached s))) (i, j)
              = NoCache))"
proof -
  let ?p = "fst (pickupClick (i, j) cached s)"
  let ?r = "removeCell i j ?p"
  have a: "modifiedCaches (removeCell i j s) = modifiedCaches s"
    by (rule removeCell_modifiedCaches)
  moreover have "snd (pickupClick (i, j) cached s) = PickedUp \<longrightarrow>
        modifiedCaches ?p (i, j) = Some None
      \<and> modifiedCaches (cellRendered luck i j ?r) = modifiedCaches ?p
      \<and> content (cellRendered luck i j ?r) (i, j) = NoCache
      \<and> offered (cellRendered luck i j ?r) (ClickDrop (i, j))
      \<and> (\<forall>views.
            modifiedCaches (run luck (map MoveEnd views) ?p) = modifiedCaches ?p
          \<and> content (run luck (map MoveEnd views) ?p) (i, j) = NoCache)"
  proof
    assume ok: "snd (pickupClick (i, j) cached s) = PickedUp"
    then have m: "modifiedCaches ?p (i, j) = Some None"
      by (auto simp: pickupClick_def Let_def split: if_splits)
    have c: "caches ?p (i, j) = None"
      using ok by (auto simp: pickupClick_def Let_def split: if_splits)
    have mr: "modifiedCaches ?r = modifiedCaches ?p"
      by (rule removeCell_modifiedCaches)
    have m2: "modifiedCaches (cellRendered luck i j ?r) = modifiedCaches ?p"
      using cellRendered_untouched [of ?r luck i j] mr by (simp add: untouched_def)
    have "content (cellRendered luck i j ?r) (i, j)
            = spec_resolve (modifiedCaches ?r) (generate luck) (i, j)"
      by (rule cellRendered_content) (simp_all add: removeCell_no_record removeCell_caches)
    then have c2: "content (cellRendered luck i j ?r) (i, j) = NoCache"
      using m mr by (simp add: spec_resolve_def)
    have d: "drawCell luck i j ?r
               = (\<lparr> rectBounds = cellBounds i j, rectPopup = DropPopup \<rparr>, ?r)"
      using m mr by (simp add: drawCell_def Let_def)
    have o: "offered (cellRendered luck i j ?r) (ClickDrop (i, j))"
      using removeCell_no_record [of i j ?p] d
      by (simp add: cellRendered_def Let_def offered_def update_conv')
    have v: "\<forall>views.
            modifiedCaches (run luck (map MoveEnd views) ?p) = modifiedCaches ?p
          \<and> content (run luck (map MoveEnd views) ?p) (i, j) = NoCache"
    proof
      fix views
      have u: "modifiedCaches (run luck (map MoveEnd views) ?p) = modifiedCaches ?p"
        using run_MoveEnd_untouched [of ?p luck views] by (simp add: untouched_def)
      have "emptyMeansNoCache ?p (i, j)"
        using c by (simp add: emptyMeansNoCache_def)
      then have "emptyMeansNoCache (run luck (map MoveEnd views) ?p) (i, j)"
        by (rule run_emptyMeansNoCache)
      then have "caches (run luck (map MoveEnd views) ?p) (i, j) = None"
        using u m by (simp add: emptyMeansNoCache_def)
      then show "modifiedCaches (run luck (map MoveEnd views) ?p) = modifiedCaches ?p
          \<and> content (run luck (map MoveEnd views) ?p) (i, j) = NoCache"
        using u by (simp add: content_no_cache)
    qed
    show "modifiedCaches ?p (i, j) = Some None
      \<and> modifiedCaches (cellRendered luck i j ?r) = modifiedCaches ?p
      \<and> content (cellRendered luck i j ?r) (i, j) = NoCache
      \<and> offered (cellRendered luck i j ?r) (ClickDrop (i, j))
      \<and> (\<forall>views.
            modifiedCaches (run luck (map MoveEnd views) ?p) = modifiedCaches ?p
          \<and> content (run luck (map MoveEnd views) ?p) (i, j) = NoCache)"
      using m m2 c2 o v by blast
  qed
  ultimately show ?thesis by blast
qed

theorem eviction_keeps_overlay_witness:
  "snd (pickupClick (0, 0) 0 exampleWorld) = PickedUp
   \<and> generate exampleLuck 0 0 = Cache 4
   \<and> content exampleWorld (0, 0) = Cache 4
   \<and> modifiedCaches carryingFour (0, 0) = Some None
   \<and> content (cellRendered exampleLuck 0 0 (removeCell 0 0 carryingFour)) (0, 0) = NoCache
   \<and> modifiedCaches emptiedCell = modifiedCaches carryingFour
   \<and> content emptiedCell (0, 0) = NoCache"
proof -
  have p: "snd (pickupClick (0, 0) 0 exampleWorld) = PickedUp"
    by (simp add: exampleWorld_facts pickupClick_def Let_def cellDistance_def PROXIMITY_CELLS_def)
  have g: "generate exampleLuck 0 0 = Cache 4" by code_simp
  have w: "content exampleWorld (0, 0) = Cache 4"
    by (simp add: content_def exampleWorld_facts)
  have c: "fst (pickupClick (0, 0) 0 exampleWorld) = carryingFour"
    by (simp add: carryingFour_def run_def step_def)
  have e: "run exampleLuck (map MoveEnd [farView, exampleView]) carryingFour = emptiedCell"
    by (simp add: emptiedCell_def)
  show ?thesis
    using eviction_keeps_overlay [of 0 0 exampleWorld 0 exampleLuck] p g w
    unfolding c by (metis e)
qed

section \<open>Rounding against flooring\<close>

lemma round_floor_frac: "round (x::real) = \<lfloor>x\<rfloor> + (if 1 / 2 \<le> frac x then 1 else 0)"
proof -
  have lo: "of_int \<lfloor>x\<rfloor> \<le> x" and hi: "x < of_int \<lfloor>x\<rfloor> + 1"
    by linarith+
  show ?thesis
  proof (cases "1 / 2 \<le> frac x")
    case True
    then have "of_int (\<lfloor>x\<rfloor> + 1) \<le> x + 1 / 2" "x + 1 / 2 < of_int (\<lfloor>x\<rfloor> + 1) + 1"
      using hi unfolding frac_def by simp_all linarith
    then have "\<lfloor>x + 1 / 2\<rfloor> = \<lfloor>x\<rfloor> + 1" by (rule floor_unique)
    then show ?thesis using True by (simp add: round_def)
  next
    case False
    then have "of_int \<lfloor>x\<rfloor> \<le> x + 1 / 2" "x + 1 / 2 < of_int \<lfloor>x\<rfloor> + 1"
      using lo unfolding frac_def by linarith+
    then have "\<lfloor>x + 1 / 2\<rfloor> = \<lfloor>x\<rfloor>" by (rule floor_unique)
    then show ?thesis using False by (simp add: round_def)
  qed
qed

lemma inBounds_floorCell: "inBounds (cellBounds (fst (floorCell p)) (snd (floorCell p))) p"
proof -
  have t: "0 < TILE_DEGREES" by (simp add: TILE_DEGREES_def)
  have x: "fst p = fst CLASSROOM_LATLNG + fst (tileOffset p) * TILE_DEGREES"
    using t by (simp add: tileOffset_def)
  have y: "snd p = snd CLASSROOM_LATLNG + snd (tileOffset p) * TILE_DEGREES"
    using t by (simp add: tileOffset_def)
  have fx: "of_int \<lfloor>fst (tileOffset p)\<rfloor> * TILE_DEGREES \<le> fst (tileOffset p) * TILE_DEGREES"
    using t by (simp add: mult_right_mono)
  have fy: "of_int \<lfloor>snd (tileOffset p)\<rfloor> * TILE_DEGREES \<le> snd (tileOffset p) * TILE_DEGREES"
    using t by (simp add: mult_right_mono)
  have cx: "fst (tileOffset p) * TILE_DEGREES \<le> of_int (\<lfloor>fst (tileOffset p)\<rfloor> + 1) * TILE_DEGREES"
    using t by (intro mult_right_mono) linarith+
  have cy: "snd (tileOffset p) * TILE_DEGREES \<le> of_int (\<lfloor>snd (tileOffset p)\<rfloor> + 1) * TILE_DEGREES"
    using t by (intro mult_right_mono) linarith+
  show ?thesis
    unfolding inBounds_def cellBounds_def floorCell_def Let_def fst_conv snd_conv
    using x y fx fy cx cy by linarith
qed

lemma visibleCells_point: "visibleCells (p, p) = {floorCell p}"
  by (auto simp: visibleCells_def floorCell_def tileOffset_def getSouth_def getNorth_def
      getWest_def getEast_def)

text \<open>
  C10. \<^verbatim>\<open>latLngToCell\<close> rounds the offset of a position in tiles to the nearest integer,
  while the rectangle drawn for the cell \<open>(i, j)\<close> spans the offsets from \<open>i\<close> to \<open>i + 1\<close>
  and \<^verbatim>\<open>updateVisibleCells\<close> rounds the bounds down. So a position lies in the rectangle
  of its floored cell, which is the cell a viewport at that position wants, but the
  cell computed for the player there is larger by one on every axis whose offset has a
  fractional part of at least a half. When both have, every distance measured from
  the player is the distance from the floored cell to the target moved by
  \<open>(- 1, - 1)\<close>.
\<close>

theorem rounding_disagrees_with_flooring:
  "inBounds (cellBounds (fst (floorCell p)) (snd (floorCell p))) p
   \<and> visibleCells (p, p) = {floorCell p}
   \<and> latLngToCell p
       = (fst (floorCell p) + (if 1 / 2 \<le> frac (fst (tileOffset p)) then 1 else 0),
          snd (floorCell p) + (if 1 / 2 \<le> frac (snd (tileOffset p)) then 1 else 0))
   \<and> (1 / 2 \<le> frac (fst (tileOffset p)) \<and> 1 / 2 \<le> frac (snd (tileOffset p)) \<longrightarrow>
        latLngToCell p = (fst (floorCell p) + 1, snd (floorCell p) + 1)
      \<and> latLngToCell p \<noteq> floorCell p
      \<and> (\<forall>i j. cellDistance (latLngToCell p) (i, j)
                 = cellDistance (floorCell p) (i - 1, j - 1)))"
proof -
  have r: "latLngToCell p
       = (fst (floorCell p) + (if 1 / 2 \<le> frac (fst (tileOffset p)) then 1 else 0),
          snd (floorCell p) + (if 1 / 2 \<le> frac (snd (tileOffset p)) then 1 else 0))"
    unfolding latLngToCell_def Let_def floorCell_def fst_conv snd_conv
    by (simp only: round_floor_frac tileOffset_def fst_conv snd_conv)
  have "1 / 2 \<le> frac (fst (tileOffset p)) \<and> 1 / 2 \<le> frac (snd (tileOffset p)) \<longrightarrow>
        latLngToCell p = (fst (floorCell p) + 1, snd (floorCell p) + 1)
      \<and> latLngToCell p \<noteq> floorCell p
      \<and> (\<forall>i j. cellDistance (latLngToCell p) (i, j)
                 = cellDistance (floorCell p) (i - 1, j - 1))"
  proof
    assume h: "1 / 2 \<le> frac (fst (tileOffset p)) \<and> 1 / 2 \<le> frac (snd (tileOffset p))"
    then have e: "latLngToCell p = (fst (floorCell p) + 1, snd (floorCell p) + 1)"
      using r by simp
    have n: "latLngToCell p \<noteq> floorCell p"
      unfolding e by (cases "floorCell p") simp
    have d: "\<forall>i j. cellDistance (latLngToCell p) (i, j) = cellDistance (floorCell p) (i - 1, j - 1)"
      unfolding e by (simp add: cellDistance_def algebra_simps)
    show "latLngToCell p = (fst (floorCell p) + 1, snd (floorCell p) + 1)
      \<and> latLngToCell p \<noteq> floorCell p
      \<and> (\<forall>i j. cellDistance (latLngToCell p) (i, j)
                 = cellDistance (floorCell p) (i - 1, j - 1))"
      using e n d by blast
  qed
  then show ?thesis
    using r inBounds_floorCell [of p] visibleCells_point [of p] by blast
qed


theorem rounding_disagrees_with_flooring_witness:
  "1 / 2 \<le> frac (fst (tileOffset offCentre)) \<and> 1 / 2 \<le> frac (snd (tileOffset offCentre))
   \<and> floorCell offCentre = (0, 0)
   \<and> inBounds (cellBounds 0 0) offCentre
   \<and> latLngToCell offCentre = (1, 1)
   \<and> cellDistance (latLngToCell offCentre) (2, 2) = 1
   \<and> cellDistance (floorCell offCentre) (2, 2) = 2"
proof -
  have t: "tileOffset offCentre = (3 / 5, 3 / 5)"
    by (simp add: tileOffset_def offCentre_def TILE_DEGREES_def)
  have f: "floorCell offCentre = (0, 0)"
    by (simp add: floorCell_def t)
  have h: "1 / 2 \<le> frac (fst (tileOffset offCentre)) \<and> 1 / 2 \<le> frac (snd (tileOffset offCentre))"
    by (simp add: t frac_def)
  show ?thesis
    using rounding_disagrees_with_flooring [of offCentre] h f
    by (simp add: cellDistance_def)
qed

section \<open>The viewport and the records\<close>

lemma drawCell_caches_other:
  "key \<noteq> (i, j) \<Longrightarrow> caches (snd (drawCell luck i j s)) key = caches s key"
  by (simp add: drawCell_def Let_def newCache_def split: option.splits)

lemma cellRendered_cellRecords:
  "\<not> hasRecord s (i, j) \<Longrightarrow>
   cellRecords (cellRendered luck i j s)
     = AList.update (i, j) \<lparr> cell_i = i, cell_j = j, rect = fst (drawCell luck i j s) \<rparr>
         (cellRecords s)"
  using drawCell_cellRecords [of luck i j s]
  by (cases "drawCell luck i j s") (simp add: cellRendered_def Let_def)

lemma cellRendered_caches_other:
  "key \<noteq> (i, j) \<Longrightarrow> caches (cellRendered luck i j s) key = caches s key"
  using drawCell_caches_other [of key i j luck s]
  by (cases "drawCell luck i j s") (simp add: cellRendered_def Let_def)

lemma visitCell_invariant:
  assumes "renderInvariant s acc"
  shows "renderInvariant s (visitCell luck i j acc)"
proof -
  obtain w e s' where acc: "acc = (w, e, s')" by (cases acc) auto
  have inv: "materialized s' = materialized s \<union> w" "set e = w - materialized s" "distinct e"
    "distinct (map fst (cellRecords s)) \<longrightarrow> distinct (map fst (cellRecords s'))"
    "\<forall>key \<in> materialized s.
        map_of (cellRecords s') key = map_of (cellRecords s) key \<and> caches s' key = caches s key"
    using assms by (simp_all add: renderInvariant_def acc)
  show ?thesis
  proof (cases "hasRecord s' (i, j)")
    case True
    then have "(i, j) \<in> materialized s \<union> w"
      using inv(1) by (simp add: hasRecord_def materialized_def)
    then show ?thesis
      using True inv by (auto simp: renderInvariant_def acc visitCell_def)
  next
    case False
    then have n: "(i, j) \<notin> materialized s" "(i, j) \<notin> w"
      using inv(1) by (auto simp: hasRecord_def materialized_def)
    let ?t = "cellRendered luck i j s'"
    have r: "cellRecords ?t
      = AList.update (i, j) \<lparr> cell_i = i, cell_j = j, rect = fst (drawCell luck i j s') \<rparr>
          (cellRecords s')"
      using False by (rule cellRendered_cellRecords)
    have m: "materialized ?t = insert (i, j) (materialized s')"
      unfolding materialized_def r using dom_update [of "(i, j)" _ "cellRecords s'"] by simp
    have d: "distinct (map fst (cellRecords s)) \<longrightarrow> distinct (map fst (cellRecords ?t))"
      unfolding r using inv(4) by (simp add: distinct_update)
    have k: "\<forall>key \<in> materialized s.
        map_of (cellRecords ?t) key = map_of (cellRecords s) key \<and> caches ?t key = caches s key"
    proof
      fix key assume key: "key \<in> materialized s"
      then have "key \<noteq> (i, j)" using n(1) by auto
      then show "map_of (cellRecords ?t) key = map_of (cellRecords s) key
          \<and> caches ?t key = caches s key"
        using inv(5) key by (simp add: r update_conv' cellRendered_caches_other)
    qed
    have v: "visitCell luck i j acc = (insert (i, j) w, e @ [(i, j)], ?t)"
      using False by (simp add: acc visitCell_def)
    show ?thesis
      unfolding v renderInvariant_def using m d k inv n by auto
  qed
qed

lemma visitCell_wanted: "fst (visitCell luck i j acc) = insert (i, j) (fst acc)"
  by (cases acc) (simp add: visitCell_def)

lemma inner_wanted:
  "fst (fold (\<lambda>j. visitCell luck i j) js acc) = fst acc \<union> Pair i ` set js"
  by (induction js arbitrary: acc) (auto simp: visitCell_wanted)

lemma outer_wanted:
  "fst (fold (\<lambda>i. fold (\<lambda>j. visitCell luck i j) js) is acc) = fst acc \<union> set is \<times> set js"
  by (induction "is" arbitrary: acc) (auto simp: inner_wanted)

lemma afterRender_wanted: "fst (afterRender luck bounds s) = visibleCells bounds"
  by (auto simp: afterRender_def renderLoop_def outer_wanted visibleCells_def)

lemma afterRender_invariant: "renderInvariant s (afterRender luck bounds s)"
  unfolding afterRender_def renderLoop_def
proof (rule fold_invariant)
  show "renderInvariant s ({}, [], s)" by (simp add: renderInvariant_def)
next
  fix i acc assume "renderInvariant s acc"
  then show "renderInvariant s (fold (\<lambda>j. visitCell luck i j)
      [\<lfloor>(getWest bounds - snd CLASSROOM_LATLNG) / TILE_DEGREES\<rfloor>..
       \<lfloor>(getEast bounds - snd CLASSROOM_LATLNG) / TILE_DEGREES\<rfloor>] acc)"
    by (rule fold_invariant) (rule visitCell_invariant)
qed

lemma removeCell_distinct:
  "distinct (map fst (cellRecords s)) \<Longrightarrow> distinct (map fst (cellRecords (removeCell i j s)))"
  by (simp add: removeCell_def Let_def distinct_delete split: option.splits)

lemma removeCell_other:
  "key \<noteq> (i, j) \<Longrightarrow>
   map_of (cellRecords (removeCell i j s)) key = map_of (cellRecords s) key
   \<and> caches (removeCell i j s) key = caches s key"
  by (simp add: removeCell_def Let_def split: option.splits)

lemma removeLoop_left:
  "fst (removeLoop w ks (l, s)) = l @ filter (\<lambda>k. k \<notin> w) ks"
  unfolding removeLoop_def
  by (induction ks arbitrary: l s) (simp_all add: removeUnwanted_def)

lemma removeLoop_materialized:
  "materialized (snd (removeLoop w ks (l, s))) = materialized s - (set ks - w)"
  unfolding removeLoop_def
proof (induction ks arbitrary: l s)
  case Nil
  then show ?case by simp
next
  case (Cons k ks)
  show ?case
  proof (cases "k \<in> w")
    case True
    then show ?thesis using Cons.IH [of l s] by (auto simp: removeUnwanted_def)
  next
    case False
    have "materialized (removeCell (fst k) (snd k) s) = materialized s - {k}"
      using removeCell_keys [of "fst k" "snd k" s] by (simp add: materialized_def)
    then show ?thesis
      using False Cons.IH [of "l @ [k]" "removeCell (fst k) (snd k) s"]
      by (auto simp: removeUnwanted_def)
  qed
qed

lemma removeLoop_distinct:
  "distinct (map fst (cellRecords s)) \<Longrightarrow>
   distinct (map fst (cellRecords (snd (removeLoop w ks (l, s)))))"
  unfolding removeLoop_def
  by (induction ks arbitrary: l s) (simp_all add: removeUnwanted_def removeCell_distinct)

lemma removeLoop_kept:
  "key \<in> w \<Longrightarrow>
   map_of (cellRecords (snd (removeLoop w ks (l, s)))) key = map_of (cellRecords s) key
   \<and> caches (snd (removeLoop w ks (l, s))) key = caches s key"
  unfolding removeLoop_def
proof (induction ks arbitrary: l s)
  case Nil
  then show ?case by simp
next
  case (Cons k ks)
  show ?case
  proof (cases "k \<in> w")
    case True
    then show ?thesis using Cons.IH [OF Cons.prems, of l s] by (simp add: removeUnwanted_def)
  next
    case False
    then have "key \<noteq> (fst k, snd k)" using Cons.prems by auto
    then show ?thesis
      using False Cons.IH [OF Cons.prems, of "l @ [k]" "removeCell (fst k) (snd k) s"]
      by (simp add: removeUnwanted_def removeCell_other)
  qed
qed


lemma viewport_update_steps:
  fixes luck bounds s
  defines "r \<equiv> afterRender luck bounds s"
  shows "enteredCells luck bounds s = fst (snd r)"
    and "leftCells luck bounds s = filter (\<lambda>k. k \<notin> fst r) (map fst (cellRecords (snd (snd r))))"
    and "afterUpdate luck bounds s
           = snd (removeLoop (fst r) (map fst (cellRecords (snd (snd r)))) ([], snd (snd r)))"
  by (simp_all add: enteredCells_def leftCells_def afterUpdate_def updateVisibleCells_unfold
      removeLoop_left r_def)

lemma viewport_update_sets:
  "materialized (afterUpdate luck bounds s) = visibleCells bounds"
  "set (enteredCells luck bounds s) = visibleCells bounds - materialized s"
  "set (leftCells luck bounds s) = materialized s - visibleCells bounds"
  "distinct (enteredCells luck bounds s)"
proof -
  let ?r = "afterRender luck bounds s"
  have inv: "renderInvariant s ?r" by (rule afterRender_invariant)
  have w: "fst ?r = visibleCells bounds" by (rule afterRender_wanted)
  have m: "materialized (snd (snd ?r)) = materialized s \<union> visibleCells bounds"
    using inv w by (simp add: renderInvariant_def case_prod_beta)
  show "materialized (afterUpdate luck bounds s) = visibleCells bounds"
    unfolding viewport_update_steps removeLoop_materialized m w
    using m by (auto simp: materialized_def)
  show "set (enteredCells luck bounds s) = visibleCells bounds - materialized s"
    unfolding viewport_update_steps using inv w by (simp add: renderInvariant_def case_prod_beta)
  show "set (leftCells luck bounds s) = materialized s - visibleCells bounds"
    unfolding viewport_update_steps w using m by (auto simp: materialized_def)
  show "distinct (enteredCells luck bounds s)"
    unfolding viewport_update_steps using inv by (simp add: renderInvariant_def case_prod_beta)
qed

lemma viewport_update_distinct:
  assumes "distinct (map fst (cellRecords s))"
  shows "distinct (map fst (cellRecords (afterUpdate luck bounds s)))"
    and "distinct (leftCells luck bounds s)"
proof -
  let ?r = "afterRender luck bounds s"
  have inv: "renderInvariant s ?r" by (rule afterRender_invariant)
  then have d: "distinct (map fst (cellRecords (snd (snd ?r))))"
    using assms by (simp add: renderInvariant_def case_prod_beta)
  show "distinct (map fst (cellRecords (afterUpdate luck bounds s)))"
    unfolding viewport_update_steps using d by (rule removeLoop_distinct)
  show "distinct (leftCells luck bounds s)"
    unfolding viewport_update_steps using d by (rule distinct_filter)
qed

lemma viewport_update_kept:
  assumes "key \<in> materialized s" and "key \<in> visibleCells bounds"
  shows "map_of (cellRecords (afterUpdate luck bounds s)) key = map_of (cellRecords s) key"
    and "caches (afterUpdate luck bounds s) key = caches s key"
proof -
  let ?r = "afterRender luck bounds s"
  have inv: "renderInvariant s ?r" by (rule afterRender_invariant)
  then have k: "map_of (cellRecords (snd (snd ?r))) key = map_of (cellRecords s) key
      \<and> caches (snd (snd ?r)) key = caches s key"
    using assms(1) by (simp add: renderInvariant_def case_prod_beta)
  have w: "key \<in> fst ?r" using assms(2) by (simp add: afterRender_wanted)
  show "map_of (cellRecords (afterUpdate luck bounds s)) key = map_of (cellRecords s) key"
    unfolding viewport_update_steps using removeLoop_kept [OF w] k by simp
  show "caches (afterUpdate luck bounds s) key = caches s key"
    unfolding viewport_update_steps using removeLoop_kept [OF w] k by simp
qed

text \<open>The records have distinct keys in every state that the events lead to.\<close>

lemma step_distinct_records:
  assumes "distinct (map fst (cellRecords s))"
  shows "distinct (map fst (cellRecords (step luck ev s)))"
proof (cases ev)
  case (KeyDown k bounds)
  have "\<And>a b. distinct (map fst (cellRecords (movePlayerByCells luck a b bounds s)))"
    unfolding movePlayerByCells_def Let_def afterUpdate_def [symmetric]
    by (rule viewport_update_distinct) (simp add: assms)
  then show ?thesis using KeyDown assms by (simp add: step_def)
next
  case (MoveEnd bounds)
  then show ?thesis
    using viewport_update_distinct(1) [OF assms, of luck bounds]
    by (simp add: step_def afterUpdate_def)
next
  case (ClickPickup key c)
  then show ?thesis using assms by (simp add: step_def pickupClick_def Let_def)
next
  case (ClickPlace key c)
  then show ?thesis using assms
    by (simp add: step_def placeClick_def Let_def triggerWin_def split: option.splits)
next
  case (ClickDrop key)
  then show ?thesis using assms
    by (simp add: step_def dropClick_def Let_def newCache_def split: option.splits)
qed

lemma run_distinct_records: "distinct (map fst (cellRecords (run luck evs initialState)))"
  unfolding run_def
  by (rule fold_invariant, simp add: initialState_def, rule step_distinct_records)

text \<open>
  C8. After \<^verbatim>\<open>updateVisibleCells\<close> the cells that have a record are exactly the cells
  that the bounds of the map quantize to, each with one record. The cells it drew are
  exactly the wanted cells that had no record, the cells it removed exactly the
  recorded cells that are not wanted, each once; after a previous update these are the
  two differences of the old and the new set of visible cells. A cell in both sets is
  neither drawn nor removed: it keeps its record and its cache.
\<close>

theorem viewport_update:
  assumes "distinct (map fst (cellRecords s))"
  shows "materialized (afterUpdate luck bounds s) = visibleCells bounds
       \<and> distinct (map fst (cellRecords (afterUpdate luck bounds s)))
       \<and> set (enteredCells luck bounds s) = visibleCells bounds - materialized s
       \<and> set (leftCells luck bounds s) = materialized s - visibleCells bounds
       \<and> distinct (enteredCells luck bounds s) \<and> distinct (leftCells luck bounds s)
       \<and> (\<forall>bounds'.
            set (enteredCells luck bounds' (afterUpdate luck bounds s))
              = visibleCells bounds' - visibleCells bounds
          \<and> set (leftCells luck bounds' (afterUpdate luck bounds s))
              = visibleCells bounds - visibleCells bounds')
       \<and> (\<forall>key \<in> materialized s \<inter> visibleCells bounds.
            key \<notin> set (enteredCells luck bounds s) \<and> key \<notin> set (leftCells luck bounds s)
          \<and> map_of (cellRecords (afterUpdate luck bounds s)) key = map_of (cellRecords s) key
          \<and> caches (afterUpdate luck bounds s) key = caches s key)"
proof -
  have "\<forall>bounds'.
            set (enteredCells luck bounds' (afterUpdate luck bounds s))
              = visibleCells bounds' - visibleCells bounds
          \<and> set (leftCells luck bounds' (afterUpdate luck bounds s))
              = visibleCells bounds - visibleCells bounds'"
    by (simp add: viewport_update_sets)
  moreover have "\<forall>key \<in> materialized s \<inter> visibleCells bounds.
            key \<notin> set (enteredCells luck bounds s) \<and> key \<notin> set (leftCells luck bounds s)
          \<and> map_of (cellRecords (afterUpdate luck bounds s)) key = map_of (cellRecords s) key
          \<and> caches (afterUpdate luck bounds s) key = caches s key"
    by (simp add: viewport_update_sets viewport_update_kept)
  ultimately show ?thesis
    using viewport_update_sets [of luck bounds s] viewport_update_distinct [OF assms, of luck bounds]
    by blast
qed

lemma shifted_update_snapshot:
  "map_prod id (map_prod id (\<lambda>t. map fst (cellRecords t)))
     (updateVisibleCells exampleLuck shiftedView exampleWorld)
   = ([(0, 3), (1, 3)], [(0, 0), (1, 0)], [(0, 1), (0, 2), (1, 1), (1, 2), (0, 3), (1, 3)])"
  by code_simp

lemma shifted_update:
  "enteredCells exampleLuck shiftedView exampleWorld = [(0, 3), (1, 3)]"
  "leftCells exampleLuck shiftedView exampleWorld = [(0, 0), (1, 0)]"
  "map fst (cellRecords (afterUpdate exampleLuck shiftedView exampleWorld))
     = [(0, 1), (0, 2), (1, 1), (1, 2), (0, 3), (1, 3)]"
  using shifted_update_snapshot
  by (cases "updateVisibleCells exampleLuck shiftedView exampleWorld";
      simp add: enteredCells_def leftCells_def afterUpdate_def)+

theorem viewport_update_witness:
  "distinct (map fst (cellRecords exampleWorld))
   \<and> materialized exampleWorld = {(0, 0), (0, 1), (0, 2), (1, 0), (1, 1), (1, 2)}
   \<and> enteredCells exampleLuck shiftedView exampleWorld = [(0, 3), (1, 3)]
   \<and> leftCells exampleLuck shiftedView exampleWorld = [(0, 0), (1, 0)]
   \<and> visibleCells shiftedView = {(0, 1), (0, 2), (1, 1), (1, 2), (0, 3), (1, 3)}
   \<and> (1, 1) \<in> materialized exampleWorld \<inter> visibleCells shiftedView
   \<and> caches (afterUpdate exampleLuck shiftedView exampleWorld) (1, 1) = Some 3"
proof -
  have k: "map fst (cellRecords exampleWorld) = [(0, 0), (0, 1), (0, 2), (1, 0), (1, 1), (1, 2)]"
    using exampleWorld_snapshot by (simp add: snapshot_def)
  have d: "distinct (map fst (cellRecords exampleWorld))"
    unfolding k by simp
  have m: "materialized exampleWorld = {(0, 0), (0, 1), (0, 2), (1, 0), (1, 1), (1, 2)}"
    unfolding materialized_def k by simp
  have a: "materialized (afterUpdate exampleLuck shiftedView exampleWorld)
      = {(0, 1), (0, 2), (1, 1), (1, 2), (0, 3), (1, 3)}"
    unfolding materialized_def shifted_update by simp
  note th = viewport_update [OF d, of exampleLuck shiftedView]
  have v: "visibleCells shiftedView = {(0, 1), (0, 2), (1, 1), (1, 2), (0, 3), (1, 3)}"
    using th a by simp
  have i: "(1, 1) \<in> materialized exampleWorld \<inter> visibleCells shiftedView"
    unfolding m v by simp
  have "\<forall>key \<in> materialized exampleWorld \<inter> visibleCells shiftedView.
      caches (afterUpdate exampleLuck shiftedView exampleWorld) key = caches exampleWorld key"
    using th by blast
  then have c: "caches (afterUpdate exampleLuck shiftedView exampleWorld) (1, 1) = Some 3"
    using i exampleWorld_facts(6) by simp
  show ?thesis
    using d m shifted_update(1,2) v i c by blast
qed

section \<open>Where a token can be dropped\<close>

lemma offered_drop:
  "offered s (ClickDrop key)
     = (\<exists>r. map_of (cellRecords s) key = Some r \<and> rectPopup (rect r) = DropPopup)"
  by (simp add: offered_def split: option.splits)

lemma drawCell_popup:
  "rectPopup (fst (drawCell luck i j s)) = DropPopup \<longleftrightarrow> modifiedCaches s (i, j) = Some None"
  by (simp add: drawCell_def Let_def split: option.splits)

lemma cellRendered_dropNeedsEntry:
  assumes "dropNeedsEntry s key"
  shows "dropNeedsEntry (cellRendered luck i j s) key"
proof (cases "hasRecord s (i, j)")
  case True
  then show ?thesis using assms by (simp add: cellRendered_def)
next
  case False
  have m: "modifiedCaches (cellRendered luck i j s) = modifiedCaches s"
    using cellRendered_untouched [of s luck i j] by (simp add: untouched_def)
  show ?thesis
    using assms drawCell_popup [of luck i j s]
    unfolding dropNeedsEntry_def offered_drop m cellRendered_cellRecords [OF False] update_conv'
    by (cases "key = (i, j)") auto
qed

lemma removeCell_dropNeedsEntry:
  "dropNeedsEntry s key \<Longrightarrow> dropNeedsEntry (removeCell i j s) key"
  unfolding dropNeedsEntry_def offered_drop removeCell_modifiedCaches
  by (auto simp: removeCell_def Let_def delete_conv' split: option.splits if_splits)

lemma visitCell_dropNeedsEntry:
  "dropNeedsEntry (snd (snd acc)) key \<Longrightarrow>
   dropNeedsEntry (snd (snd (visitCell luck i j acc))) key"
  by (cases acc) (simp add: visitCell_def cellRendered_dropNeedsEntry)

lemma removeUnwanted_dropNeedsEntry:
  "dropNeedsEntry (snd acc) key \<Longrightarrow> dropNeedsEntry (snd (removeUnwanted w k acc)) key"
  by (cases acc) (simp add: removeUnwanted_def removeCell_dropNeedsEntry)

lemma updateVisibleCells_dropNeedsEntry:
  assumes "dropNeedsEntry s key"
  shows "dropNeedsEntry (snd (snd (updateVisibleCells luck bounds s))) key"
proof -
  have r: "dropNeedsEntry (snd (snd (afterRender luck bounds s))) key"
    unfolding afterRender_def renderLoop_def
    by (rule fold_invariant, simp add: assms, rule fold_invariant, assumption,
        rule visitCell_dropNeedsEntry)
  show ?thesis
    unfolding updateVisibleCells_unfold snd_conv removeLoop_def
    by (rule fold_invariant, simp add: r, rule removeUnwanted_dropNeedsEntry)
qed

lemma movePlayerByCells_dropNeedsEntry:
  "dropNeedsEntry s key \<Longrightarrow> dropNeedsEntry (movePlayerByCells luck a b bounds s) key"
  unfolding movePlayerByCells_def Let_def
  by (rule updateVisibleCells_dropNeedsEntry) (simp add: dropNeedsEntry_def offered_drop)

lemma pickupClick_dropNeedsEntry:
  "dropNeedsEntry s key \<Longrightarrow> dropNeedsEntry (fst (pickupClick k c s)) key"
  by (simp add: dropNeedsEntry_def offered_drop pickupClick_def Let_def)

lemma placeClick_dropNeedsEntry:
  "dropNeedsEntry s key \<Longrightarrow> dropNeedsEntry (fst (placeClick k c s)) key"
  by (simp add: dropNeedsEntry_def offered_drop placeClick_def Let_def triggerWin_def
      split: option.splits)

lemma dropClick_dropNeedsEntry:
  "dropNeedsEntry s key \<Longrightarrow> dropNeedsEntry (fst (dropClick k s)) key"
  by (simp add: dropNeedsEntry_def offered_drop dropClick_def Let_def newCache_def
      split: option.splits)

lemma step_dropNeedsEntry:
  "dropNeedsEntry s key \<Longrightarrow> dropNeedsEntry (step luck ev s) key"
  by (cases ev)
     (simp_all add: step_def movePlayerByCells_dropNeedsEntry
        updateVisibleCells_dropNeedsEntry pickupClick_dropNeedsEntry
        placeClick_dropNeedsEntry dropClick_dropNeedsEntry)

lemma run_dropNeedsEntry:
  "dropNeedsEntry s key \<Longrightarrow> dropNeedsEntry (run luck evs s) key"
  unfolding run_def by (rule fold_invariant, assumption, rule step_dropNeedsEntry)

lemma initialState_dropNeedsEntry: "dropNeedsEntry initialState key"
  by (simp add: dropNeedsEntry_def offered_drop initialState_def)

lemma placeClick_caches: "caches (fst (placeClick key cached s)) = caches s"
  by (simp add: placeClick_def Let_def triggerWin_def split: option.splits)

lemma pickupClick_caches_None:
  "caches s key = None \<Longrightarrow> caches (fst (pickupClick k c s)) key = None"
  by (simp add: pickupClick_def Let_def)

lemma dropClick_caches_other:
  "key \<noteq> k \<Longrightarrow> caches (fst (dropClick k s)) key = caches s key"
  by (simp add: dropClick_def Let_def newCache_def split: option.splits)

lemma dropClick_effect:
  assumes "inventory s = Some v" and "cellDistance (getPlayerCell s) key \<le> PROXIMITY_CELLS"
  shows "snd (dropClick key s) = Dropped v"
    and "content (fst (dropClick key s)) key = Cache v"
    and "modifiedCaches (fst (dropClick key s)) key = Some (Some v)"
    and "inventory (fst (dropClick key s)) = None"
  using assms
  by (simp_all add: dropClick_def Let_def newCache_def content_def residentValue_def)

text \<open>
  C4, as stated: no operation of the player creates a cache at a cell without one, and
  no entry of the overlay goes from emptied to a token. The program has such an
  operation: after the token of \<open>(0, 0)\<close> was picked up and the cell was drawn anew, its
  rectangle offers \<^verbatim>\<open>Drop token here\<close>, and the click puts a cache of the carried value 4
  on the emptied cell.
\<close>

theorem drop_creates_cache_counterexample:
  "offered exampleWorld (ClickPickup (0, 0) 0)
   \<and> offered emptiedCell (ClickDrop (0, 0))
   \<and> modifiedCaches emptiedCell (0, 0) = Some None
   \<and> content emptiedCell (0, 0) = NoCache
   \<and> snd (dropClick (0, 0) emptiedCell) = Dropped 4
   \<and> modifiedCaches (fst (dropClick (0, 0) emptiedCell)) (0, 0) = Some (Some 4)
   \<and> content (fst (dropClick (0, 0) emptiedCell)) (0, 0) = Cache 4"
proof -
  have d: "cellDistance (getPlayerCell emptiedCell) (0, 0) \<le> PROXIMITY_CELLS"
    by (simp add: emptiedCell_facts cellDistance_def PROXIMITY_CELLS_def)
  have o: "offered exampleWorld (ClickPickup (0, 0) 0)"
    by (simp add: offered_def exampleWorld_facts)
  show ?thesis
    using dropClick_effect [OF emptiedCell_facts(2) d] o
    by (simp add: emptiedCell_facts content_no_cache)
qed

text \<open>
  C4, amended. \<^verbatim>\<open>Place token\<close> never creates a cache: it leaves the cells that hold a
  cache as they are, and in every state that the events lead to from the initial
  state, a cell whose popup offers it holds a resident cache and its entry in the
  overlay is not the emptied one. In such a state no click that the page offers
  creates a cache at a cell that has neither a cache nor an entry in the overlay. A
  cache is created from nothing only by \<^verbatim>\<open>Drop token here\<close>, which is offered at cells
  that have an entry: within \<open>PROXIMITY_CELLS\<close> and carrying \<open>v\<close>, it makes a cache of
  value \<open>v\<close> resident, sets the entry of the cell to \<open>v\<close> and empties the inventory.
\<close>

theorem place_never_creates_cache:
  "caches (fst (placeClick key cached s)) = caches s
   \<and> (offered (run luck evs initialState) (ClickPlace key cached) \<longrightarrow>
        content (run luck evs initialState) key \<noteq> NoCache
      \<and> modifiedCaches (run luck evs initialState) key \<noteq> Some None)
   \<and> (isClick ev \<and> offered (run luck evs initialState) ev
        \<and> caches (run luck evs initialState) key = None
        \<and> modifiedCaches (run luck evs initialState) key = None \<longrightarrow>
        caches (step luck ev (run luck evs initialState)) key = None)
   \<and> (offered (run luck evs initialState) (ClickDrop key) \<longrightarrow>
        modifiedCaches (run luck evs initialState) key \<noteq> None)
   \<and> (inventory s = Some v \<and> cellDistance (getPlayerCell s) key \<le> PROXIMITY_CELLS \<longrightarrow>
        snd (dropClick key s) = Dropped v
      \<and> content (fst (dropClick key s)) key = Cache v
      \<and> modifiedCaches (fst (dropClick key s)) key = Some (Some v)
      \<and> inventory (fst (dropClick key s)) = None)"
proof -
  let ?s = "run luck evs initialState"
  have e: "emptyMeansNoCache ?s key"
    by (rule run_emptyMeansNoCache) (rule initialState_emptyMeansNoCache)
  have n: "\<And>k. dropNeedsEntry ?s k"
    by (rule run_dropNeedsEntry) (rule initialState_dropNeedsEntry)
  have a: "caches (fst (placeClick key cached s)) = caches s"
    by (rule placeClick_caches)
  have b: "offered ?s (ClickPlace key cached) \<longrightarrow>
        content ?s key \<noteq> NoCache \<and> modifiedCaches ?s key \<noteq> Some None"
    using e by (auto simp: offered_def emptyMeansNoCache_def content_def residentValue_def)
  have c: "isClick ev \<and> offered ?s ev \<and> caches ?s key = None \<and> modifiedCaches ?s key = None \<longrightarrow>
        caches (step luck ev ?s) key = None"
  proof (cases ev)
    case (ClickDrop k)
    show ?thesis
    proof
      assume h: "isClick ev \<and> offered ?s ev \<and> caches ?s key = None \<and> modifiedCaches ?s key = None"
      then have "modifiedCaches ?s k \<noteq> None"
        using n [of k] ClickDrop by (simp add: dropNeedsEntry_def)
      then have "key \<noteq> k" using h by auto
      then show "caches (step luck ev ?s) key = None"
        using h ClickDrop by (simp add: step_def dropClick_caches_other)
    qed
  qed (simp_all add: isClick_def step_def placeClick_caches pickupClick_caches_None)
  have d: "offered ?s (ClickDrop key) \<longrightarrow> modifiedCaches ?s key \<noteq> None"
    using n [of key] by (simp add: dropNeedsEntry_def)
  have f: "inventory s = Some v \<and> cellDistance (getPlayerCell s) key \<le> PROXIMITY_CELLS \<longrightarrow>
        snd (dropClick key s) = Dropped v
      \<and> content (fst (dropClick key s)) key = Cache v
      \<and> modifiedCaches (fst (dropClick key s)) key = Some (Some v)
      \<and> inventory (fst (dropClick key s)) = None"
    using dropClick_effect [of s v key] by blast
  show ?thesis using a b c d f by blast
qed


theorem place_never_creates_cache_witness:
  "offered (run exampleLuck [MoveEnd exampleView, ClickPickup (0, 0) 0] initialState)
     (ClickPlace (0, 1) 1)
   \<and> content (run exampleLuck [MoveEnd exampleView, ClickPickup (0, 0) 0] initialState) (0, 1)
       = Cache 4
   \<and> isClick (ClickPlace (0, 1) 1)
   \<and> caches (run exampleLuck [MoveEnd exampleView, ClickPickup (0, 0) 0] initialState) (1, 0) = None
   \<and> modifiedCaches (run exampleLuck [MoveEnd exampleView, ClickPickup (0, 0) 0] initialState) (1, 0)
       = None
   \<and> caches (step exampleLuck (ClickPlace (0, 1) 1)
        (run exampleLuck [MoveEnd exampleView, ClickPickup (0, 0) 0] initialState)) (1, 0) = None
   \<and> offered (run exampleLuck
        [MoveEnd exampleView, ClickPickup (0, 0) 0, MoveEnd farView, MoveEnd exampleView]
        initialState) (ClickDrop (0, 0))
   \<and> modifiedCaches (run exampleLuck
        [MoveEnd exampleView, ClickPickup (0, 0) 0, MoveEnd farView, MoveEnd exampleView]
        initialState) (0, 0) = Some None
   \<and> inventory emptiedCell = Some 4
   \<and> cellDistance (getPlayerCell emptiedCell) (0, 0) \<le> PROXIMITY_CELLS
   \<and> content (fst (dropClick (0, 0) emptiedCell)) (0, 0) = Cache 4
   \<and> inventory (fst (dropClick (0, 0) emptiedCell)) = None"
proof -
  have c: "run exampleLuck [MoveEnd exampleView, ClickPickup (0, 0) 0] initialState = carryingFour"
    by (simp add: carryingFour_def exampleWorld_def run_def)
  have e: "run exampleLuck
        [MoveEnd exampleView, ClickPickup (0, 0) 0, MoveEnd farView, MoveEnd exampleView]
        initialState = emptiedCell"
    by (simp add: emptiedCell_def carryingFour_def exampleWorld_def run_def)
  have o: "offered carryingFour (ClickPlace (0, 1) 1)"
    by (simp add: offered_def carryingFour_facts)
  have v: "content carryingFour (0, 1) = Cache 4"
    by (simp add: content_def carryingFour_facts)
  have k: "isClick (ClickPlace (0, 1) 1)" by (simp add: isClick_def)
  have n: "caches carryingFour (1, 0) = None \<and> modifiedCaches carryingFour (1, 0) = None"
    by (simp add: carryingFour_facts)
  have i: "inventory emptiedCell = Some 4" by (rule emptiedCell_facts)
  have d: "cellDistance (getPlayerCell emptiedCell) (0, 0) \<le> PROXIMITY_CELLS"
    by (simp add: emptiedCell_facts cellDistance_def PROXIMITY_CELLS_def)
  have od: "offered emptiedCell (ClickDrop (0, 0))" by (rule emptiedCell_facts)
  have md: "modifiedCaches emptiedCell (0, 0) = Some None" by (rule emptiedCell_facts)
  show ?thesis
    unfolding c e
    using place_never_creates_cache
        [where luck = exampleLuck and evs = "[MoveEnd exampleView, ClickPickup (0, 0) 0]"
           and key = "(1, 0)" and ev = "ClickPlace (0, 1) 1" and s = emptiedCell and v = 4
           and cached = 1]
      place_never_creates_cache
        [where luck = exampleLuck and evs = "[MoveEnd exampleView, ClickPickup (0, 0) 0]"
           and key = "(0, 1)" and ev = "ClickPlace (0, 1) 1" and s = emptiedCell and v = 4
           and cached = 1]
      place_never_creates_cache
        [where luck = exampleLuck
           and evs = "[MoveEnd exampleView, ClickPickup (0, 0) 0, MoveEnd farView, MoveEnd exampleView]"
           and key = "(0, 0)" and ev = "ClickPlace (0, 1) 1" and s = emptiedCell and v = 4
           and cached = 1]
      o v k n i d od md
    unfolding c e by blast
qed

end
